theory Spec2Isabelle
  imports Complex_Main "HOL-Library.Word" "HOL-Library.List_Lexorder" "HOL-Library.AList"
begin

unbundle bit_operations_syntax

section \<open>JavaScript strings and byte arrays\<close>

text \<open>
  A JavaScript string is a sequence of UTF-16 code units; \<open>length\<close> and
  \<open>charCodeAt\<close> count and read code units. A \<open>Uint8Array\<close> is a list of bytes.
  With \<open>HOL-Library.List_Lexorder\<close> the order on both is the lexicographic one
  on the elements, which for strings is the order of the JavaScript operator \<open><\<close>
  and of \<open>Array.prototype.sort\<close> without a comparator.
\<close>

type_synonym jsstring = "16 word list"
type_synonym bytes = "8 word list"

definition js :: "string \<Rightarrow> jsstring" where
  "js s = map (\<lambda>c. of_nat (of_char c)) s"

definition ascii :: "string \<Rightarrow> bytes" where
  "ascii s = map (\<lambda>c. of_nat (of_char c)) s"

section \<open>Util.ts\<close>

definition KB :: nat where "KB = 1024"
definition MB :: nat where "MB = KB * 1024"

text \<open>The characters matched by \<open>\s\<close> in a JavaScript regular expression.\<close>

definition isWhiteSpace :: "16 word \<Rightarrow> bool" where
  "isWhiteSpace c \<longleftrightarrow>
     c \<in> {0x09, 0x0A, 0x0B, 0x0C, 0x0D, 0x20, 0xA0, 0x1680, 0x2028, 0x2029, 0x202F, 0x205F,
          0x3000, 0xFEFF} \<or> (0x2000 \<le> c \<and> c \<le> 0x200A)"

text \<open>
  \<open>str.split(/\s+/g)\<close>: the pieces of \<open>str\<close> between maximal runs of white space,
  the empty pieces at both ends included. \<open>cur\<close> is the piece being read.
\<close>

function splitWs :: "jsstring \<Rightarrow> jsstring \<Rightarrow> jsstring list" where
  "splitWs cur [] = [cur]"
| "splitWs cur (c # cs) =
     (if isWhiteSpace c then cur # splitWs [] (dropWhile isWhiteSpace cs)
      else splitWs (cur @ [c]) cs)"
  by pat_completeness auto
termination
  by (relation "measure (\<lambda>(cur, s). length s)")
     (auto simp: le_imp_less_Suc length_dropWhile_le)

definition getLines :: "jsstring \<Rightarrow> jsstring list" where
  "getLines str = filter (\<lambda>line. length line \<noteq> 0) (splitWs [] str)"

section \<open>UIState.ts\<close>

datatype BlockSize =
  Auto | KB16 | KB32 | KB64 | KB128 | KB256 | KB512 | MB1 | MB2 | MB4 | MB8 | MB16

record TorrentUIParameters =
  name :: jsstring
  blockSize_ui :: BlockSize
  isPrivate :: bool
  setCreationDate :: bool
  trackers :: jsstring
  webSeeds :: jsstring
  comment :: jsstring
  source :: jsstring

section \<open>TorrentObject.ts: validation\<close>

text \<open>
  \<open>new URL(s)\<close> is the platform's URL parser. It is a parameter of the model:
  \<open>None\<close> when the constructor throws, otherwise the parsed URL, of which the code
  reads the \<open>pathname\<close>.
\<close>

record URL =
  pathname :: jsstring

type_synonym urlParser = "jsstring \<Rightarrow> URL option"

text \<open>The character class \<open>[<>:\"\\\/\|\?\*]\<close> of the name check.\<close>

definition isReservedChar :: "16 word \<Rightarrow> bool" where
  "isReservedChar c \<longleftrightarrow> c \<in> {0x3C, 0x3E, 0x3A, 0x22, 0x5C, 0x2F, 0x7C, 0x3F, 0x2A}"

definition endsWith :: "jsstring \<Rightarrow> jsstring \<Rightarrow> bool" where
  "endsWith s t \<longleftrightarrow> length t \<le> length s \<and> drop (length s - length t) s = t"

text \<open>\<open>/\/announce\/?$/.test(p)\<close>\<close>

definition announcePathTest :: "jsstring \<Rightarrow> bool" where
  "announcePathTest p \<longleftrightarrow> endsWith p (js ''/announce'') \<or> endsWith p (js ''/announce/'')"

definition errEmptyName :: jsstring where
  "errEmptyName = js ''Torrent name cannot be empty''"

definition errLongName :: jsstring where
  "errLongName = js ''Torrent name cannot be longer than 255 characters''"

definition errReservedName :: jsstring where
  "errReservedName =
     js ''Torrent name cannot contain any of the following characters: < > : '' @ [0x5C] @
     js '' / | ? *''"

definition errTrackerPath :: "jsstring \<Rightarrow> jsstring" where
  "errTrackerPath tracker =
     js ''Invalid tracker: `'' @ tracker @
     js ''` (URL must end with `announce` or `announce/`)''"

definition errTrackerUrl :: "jsstring \<Rightarrow> jsstring" where
  "errTrackerUrl tracker = js ''Invalid tracker: `'' @ tracker @ js ''` (not a valid URL)''"

definition errWebSeedUrl :: "jsstring \<Rightarrow> jsstring" where
  "errWebSeedUrl webSeed = js ''Invalid web seed: `'' @ webSeed @ js ''` (not a valid URL)''"

text \<open>The two loops of \<open>validateTorrentInput\<close>: the first error, if any.\<close>

fun checkTrackers :: "urlParser \<Rightarrow> jsstring list \<Rightarrow> jsstring option" where
  "checkTrackers parseURL [] = None"
| "checkTrackers parseURL (tracker # rest) =
     (case parseURL tracker of
        None \<Rightarrow> Some (errTrackerUrl tracker)
      | Some url \<Rightarrow>
          if \<not> announcePathTest (pathname url) then Some (errTrackerPath tracker)
          else checkTrackers parseURL rest)"

fun checkWebSeeds :: "urlParser \<Rightarrow> jsstring list \<Rightarrow> jsstring option" where
  "checkWebSeeds parseURL [] = None"
| "checkWebSeeds parseURL (webSeed # rest) =
     (case parseURL webSeed of
        None \<Rightarrow> Some (errWebSeedUrl webSeed)
      | Some url \<Rightarrow> checkWebSeeds parseURL rest)"

text \<open>\<open>Result<null, string>\<close>: \<open>Inl\<close> is \<open>Result.error\<close>, \<open>Inr\<close> is \<open>Result.ok\<close>.\<close>

definition validateTorrentInput :: "urlParser \<Rightarrow> TorrentUIParameters \<Rightarrow> jsstring + unit" where
  "validateTorrentInput parseURL p =
     (if length (name p) = 0 then Inl errEmptyName
      else if length (name p) > 255 then Inl errLongName
      else if list_ex isReservedChar (name p) then Inl errReservedName
      else case checkTrackers parseURL (getLines (trackers p)) of
             Some e \<Rightarrow> Inl e
           | None \<Rightarrow>
               (case checkWebSeeds parseURL (getLines (webSeeds p)) of
                  Some e \<Rightarrow> Inl e
                | None \<Rightarrow> Inr ()))"

text \<open>
  What the tracker loop accepts: the token parses and the parsed path passes the
  regular expression.
\<close>

definition trackerAccepted :: "urlParser \<Rightarrow> jsstring \<Rightarrow> bool" where
  "trackerAccepted parseURL t \<longleftrightarrow>
     (case parseURL t of None \<Rightarrow> False | Some url \<Rightarrow> announcePathTest (pathname url))"

text \<open>
  The acceptance condition in the specification's words: the token parses and its path
  ends with \<open>announce\<close> or \<open>announce/\<close>.
\<close>

definition specTrackerAccepted :: "urlParser \<Rightarrow> jsstring \<Rightarrow> bool" where
  "specTrackerAccepted parseURL t \<longleftrightarrow>
     (case parseURL t of
        None \<Rightarrow> False
      | Some url \<Rightarrow> endsWith (pathname url) (js ''announce'') \<or>
                    endsWith (pathname url) (js ''announce/''))"

text \<open>
  A URL parser given by a finite table from token to path, for evaluating the
  validator on concrete inputs.
\<close>

definition tableParser :: "(jsstring \<times> jsstring) list \<Rightarrow> urlParser" where
  "tableParser tbl s = map_option (\<lambda>p. \<lparr>pathname = p\<rparr>) (map_of tbl s)"

section \<open>TorrentObject.ts: piece length\<close>

text \<open>
  The values of a JavaScript number that \<open>Math.log2\<close> of a non-negative quotient
  takes: minus infinity (at 0) or a real. The logarithm and the rounding are the exact
  ones on the reals; \<open>Math.round\<close> rounds half up.
\<close>

datatype jsnumber = NegInfinity | Num real

definition Math_log2 :: "real \<Rightarrow> jsnumber" where
  "Math_log2 x = (if x = 0 then NegInfinity else Num (log 2 x))"

fun Math_round :: "jsnumber \<Rightarrow> jsnumber" where
  "Math_round NegInfinity = NegInfinity"
| "Math_round (Num x) = Num (of_int \<lfloor>x + 1 / 2\<rfloor>)"

fun Math_max :: "jsnumber \<Rightarrow> jsnumber \<Rightarrow> jsnumber" where
  "Math_max NegInfinity y = y"
| "Math_max (Num x) NegInfinity = Num x"
| "Math_max (Num x) (Num y) = Num (max x y)"

fun Math_min :: "jsnumber \<Rightarrow> jsnumber \<Rightarrow> jsnumber" where
  "Math_min NegInfinity y = NegInfinity"
| "Math_min (Num x) NegInfinity = NegInfinity"
| "Math_min (Num x) (Num y) = Num (min x y)"

text \<open>
  \<open>1 << factor\<close>: the shift is on 32-bit integers and the shift count is taken
  modulo 32; minus infinity converts to 0.
\<close>

fun shiftLeft1 :: "jsnumber \<Rightarrow> 32 word" where
  "shiftLeft1 NegInfinity = 1"
| "shiftLeft1 (Num x) = push_bit (nat (\<lfloor>x\<rfloor> mod 32)) 1"

definition getAutoBlockSize :: "nat \<Rightarrow> nat" where
  "getAutoBlockSize totalSize =
     (let targetBlockCount = 1200;
          factor = Math_round (Math_log2 (real totalSize / targetBlockCount));
          factor = Math_max factor (Num 14);
          factor = Math_min factor (Num 24)
      in nat (sint (shiftLeft1 factor)))"

fun getBlockSize :: "BlockSize \<Rightarrow> nat \<Rightarrow> nat" where
  "getBlockSize Auto totalSize = getAutoBlockSize totalSize"
| "getBlockSize KB16 totalSize = 16 * KB"
| "getBlockSize KB32 totalSize = 32 * KB"
| "getBlockSize KB64 totalSize = 64 * KB"
| "getBlockSize KB128 totalSize = 128 * KB"
| "getBlockSize KB256 totalSize = 256 * KB"
| "getBlockSize KB512 totalSize = 512 * KB"
| "getBlockSize MB1 totalSize = 1 * MB"
| "getBlockSize MB2 totalSize = 2 * MB"
| "getBlockSize MB4 totalSize = 4 * MB"
| "getBlockSize MB8 totalSize = 8 * MB"
| "getBlockSize MB16 totalSize = 16 * MB"

section \<open>FileInput.ts\<close>

text \<open>
  A \<open>File\<close> is known to the pipeline by its \<open>size\<close> and by what reading it
  returns. \<open>reads\<close> lists the results of the successive reads of the file, in order:
  \<open>Read value done\<close> is a read that delivers \<open>value\<close> (\<open>None\<close> for
  \<open>undefined\<close>) with the flag \<open>done\<close>; \<open>ReadError\<close> is a read that fails.
\<close>

datatype readResult = Read "bytes option" bool | ReadError

record File =
  size_file :: nat
  reads :: "readResult list"

datatype FolderElement =
  FolderElement (files_folder: "(jsstring \<times> File) list")
                (folders: "(jsstring \<times> FolderElement) list")

datatype Input = InputFile File | InputFolder FolderElement

record FileWithPath =
  path :: "jsstring list"
  file_fp :: File

record SelectedFileOrFolderInfo =
  name_sel :: jsstring
  size_sel :: nat
  input :: Input
  fileList :: "FileWithPath list"

section \<open>TorrentObject.ts: the metainfo object\<close>

text \<open>An optional key of an object is an \<open>option\<close>: \<open>None\<close> when the key is absent.\<close>

record TorrentFileInfo =
  length_tf :: nat
  path_tf :: "jsstring list"

record TorrentInfo =
  name_info :: jsstring
  private_info :: "nat option"
  pieces :: bytes
  piece_length :: nat
  files :: "TorrentFileInfo list option"
  length_info :: "nat option"
  source_info :: "jsstring option"

record TorrentObject =
  info :: TorrentInfo
  announce :: "jsstring option"
  announce_list :: "jsstring list list option"
  url_list :: "jsstring list option"
  creation_date :: "int option"
  created_by :: "jsstring option"
  comment_obj :: "jsstring option"

text \<open>
  \<open>now\<close> is the value of \<open>Date.now()\<close> in milliseconds; \<open>(now / 1000) | 0\<close>
  truncates and wraps to a signed 32-bit integer.
\<close>

definition assembleTorrentObject ::
  "urlParser \<Rightarrow> nat \<Rightarrow> TorrentUIParameters \<Rightarrow> SelectedFileOrFolderInfo option \<Rightarrow> nat \<Rightarrow>
   jsstring + TorrentObject" where
  "assembleTorrentObject parseURL now torrentUIParameters selectedFileOrFolderInfo blockSize =
     (case validateTorrentInput parseURL torrentUIParameters of
        Inl error \<Rightarrow> Inl error
      | Inr _ \<Rightarrow>
          (let infoObject = \<lparr>name_info = name torrentUIParameters, private_info = None, pieces = [],
                 piece_length = 0, files = None, length_info = None, source_info = None\<rparr>;
               torrentObject = \<lparr>info = infoObject, announce = None, announce_list = None,
                 url_list = None, creation_date = None, created_by = None,
                 comment_obj = None\<rparr>;
               okTrackersList = getLines (trackers torrentUIParameters);
               torrentObject =
                 (if length okTrackersList \<noteq> 0
                  then torrentObject\<lparr>announce := Some (hd okTrackersList),
                         announce_list := Some (map (\<lambda>t. [t]) okTrackersList)\<rparr>
                  else torrentObject);
               webSeedsList = getLines (webSeeds torrentUIParameters);
               torrentObject =
                 (if length webSeedsList \<noteq> 0
                  then torrentObject\<lparr>url_list := Some webSeedsList\<rparr> else torrentObject);
               torrentObject =
                 (if comment torrentUIParameters \<noteq> []
                  then torrentObject\<lparr>comment_obj := Some (comment torrentUIParameters)\<rparr>
                  else torrentObject);
               torrentObject =
                 (if setCreationDate torrentUIParameters
                  then torrentObject\<lparr>creation_date :=
                         Some (sint (word_of_nat (now div 1000) :: 32 word))\<rparr>
                  else torrentObject);
               torrentObject =
                 torrentObject\<lparr>created_by := Some (js ''kimbatt.github.io/torrent-creator'')\<rparr>;
               infoObject =
                 (if isPrivate torrentUIParameters then infoObject\<lparr>private_info := Some 1\<rparr>
                  else infoObject);
               infoObject = infoObject\<lparr>piece_length := blockSize\<rparr>;
               infoObject =
                 (if source torrentUIParameters \<noteq> []
                  then infoObject\<lparr>source_info := Some (source torrentUIParameters)\<rparr>
                  else infoObject);
               infoObject =
                 (case selectedFileOrFolderInfo of
                    None \<Rightarrow> infoObject
                  | Some sel \<Rightarrow>
                      (case input sel of
                         InputFile f \<Rightarrow> infoObject\<lparr>length_info := Some (size_file f)\<rparr>
                       | InputFolder rootFolder \<Rightarrow>
                           infoObject\<lparr>files := Some (map (\<lambda>fp. \<lparr>length_tf = size_file (file_fp fp),
                             path_tf = path fp\<rparr>) (fileList sel))\<rparr>))
           in Inr (torrentObject\<lparr>info := infoObject\<rparr>)))"

section \<open>Bencode.ts\<close>

text \<open>
  \<open>toUTF8Bytes\<close> yields numbers that \<open>new Uint8Array\<close> stores modulo 256. The bit
  operations work on 32-bit integers. In the last branch \<open>charCodeAt\<close> past the end
  of the string gives \<open>NaN\<close>, which \<open>&\<close> turns into 0.
\<close>

fun toUTF8Bytes :: "jsstring \<Rightarrow> bytes" where
  "toUTF8Bytes [] = []"
| "toUTF8Bytes (c # cs) =
     (let charcode = (ucast c :: 32 word) in
      if charcode < 0x80 then ucast charcode # toUTF8Bytes cs
      else if charcode < 0x800 then
        ucast (0xc0 OR drop_bit 6 charcode) #
        ucast (0x80 OR (charcode AND 0x3f)) # toUTF8Bytes cs
      else if charcode < 0xd800 \<or> charcode \<ge> 0xe000 then
        ucast (0xe0 OR drop_bit 12 charcode) #
        ucast (0x80 OR (drop_bit 6 charcode AND 0x3f)) #
        ucast (0x80 OR (charcode AND 0x3f)) # toUTF8Bytes cs
      else
        (let next = (case cs of [] \<Rightarrow> 0 | d # ds \<Rightarrow> (ucast d :: 32 word));
             charcode = 0x10000 + (push_bit 10 (charcode AND 0x3ff) OR (next AND 0x3ff))
         in ucast (0xf0 OR drop_bit 18 charcode) #
            ucast (0x80 OR (drop_bit 12 charcode AND 0x3f)) #
            ucast (0x80 OR (drop_bit 6 charcode AND 0x3f)) #
            ucast (0x80 OR (charcode AND 0x3f)) # toUTF8Bytes (tl cs)))"

fun stringByteCountUTF8 :: "jsstring \<Rightarrow> nat" where
  "stringByteCountUTF8 [] = 0"
| "stringByteCountUTF8 (c # cs) =
     (let charcode = (ucast c :: 32 word) in
      if charcode < 0x80 then 1 + stringByteCountUTF8 cs
      else if charcode < 0x800 then 2 + stringByteCountUTF8 cs
      else if charcode < 0xd800 \<or> charcode \<ge> 0xe000 then 3 + stringByteCountUTF8 cs
      else 4 + stringByteCountUTF8 (tl cs))"

text \<open>
  \<open>digitsOf\<close> is \<open>Number.prototype.toString\<close> on a length (of a string or of an
  array): a non-negative integer below \<open>2^53\<close>, which JavaScript writes with all its
  decimal digits.
\<close>

fun digitsOf :: "nat \<Rightarrow> jsstring" where
  "digitsOf n = (if n < 10 then [of_nat (48 + n)] else digitsOf (n div 10) @ [of_nat (48 + n mod 10)])"

declare digitsOf.simps [simp del]

text \<open>
  The numbers that the model encodes are the integers from \<open>-2^53\<close> to \<open>2^53 - 1\<close>,
  a signed word of 54 bits read with \<open>sint\<close>. Each of them is a JavaScript number,
  and \<open>Number.prototype.toString\<close> writes it with all its decimal digits, after a
  minus sign when it is negative. The other numbers are outside the model: fractions,
  \<open>NaN\<close> and the infinities, which \<open>toString\<close> writes with a point or by name,
  and the integers of larger magnitude, which are written with an exponent from
  \<open>10^21\<close> on. The application encodes sizes of files, the piece length and a date
  in seconds.
\<close>

type_synonym jsinteger = "54 word"

definition toString :: "jsinteger \<Rightarrow> jsstring" where
  "toString n = (if sint n < 0 then 0x2D # digitsOf (nat (- sint n)) else digitsOf (nat (sint n)))"

text \<open>
  The values that can be encoded. An object is the list of its own enumerable
  properties in insertion order, a property with the value \<open>undefined\<close> having
  \<open>None\<close>; the keys of an object are distinct.
\<close>

datatype IBencodeObject =
  IBencodeInt jsinteger
| IBencodeString jsstring
| IBencodeBinaryString bytes
| IBencodeList "IBencodeObject list"
| IBencodeDict "(jsstring \<times> IBencodeObject option) list"

type_synonym BencodeBuffer = "bytes list"

definition getBytes :: "BencodeBuffer \<Rightarrow> bytes" where
  "getBytes bytesList = concat bytesList"

definition writeTextUTF8 :: "jsstring \<Rightarrow> BencodeBuffer \<Rightarrow> BencodeBuffer" where
  "writeTextUTF8 text bytesList = bytesList @ [toUTF8Bytes text]"

definition writeBytes :: "bytes \<Rightarrow> BencodeBuffer \<Rightarrow> BencodeBuffer" where
  "writeBytes bs bytesList = bytesList @ [bs]"

datatype BencodeObject =
  BencodeInt jsinteger
| BencodeString jsstring
| BencodeBinaryString bytes
| BencodeList "BencodeObject list"
| BencodeDict "(jsstring \<times> BencodeObject) list"

text \<open>
  \<open>getBencodeObject\<close> with the constructors of the classes. The constructor of
  \<open>BencodeDict\<close> assigns the defined properties one after the other to \<open>data\<close>,
  which starts as the empty object \<open>{}\<close>; an assignment to a key that is present
  replaces its value in place. (JavaScript lists integer-like keys first; \<open>encode\<close>
  sorts the keys, so the order of \<open>data\<close> does not reach the output.)

  The key \<open>__proto__\<close> is the exception: \<open>data\<close> inherits an accessor of this
  name from \<open>Object.prototype\<close>, so the assignment \<open>this.data[key] = bencodeObj\<close>
  calls the setter, which makes the assigned object the prototype of \<open>data\<close> and
  adds no property. \<open>Object.keys\<close> lists own properties only, and a lookup of an own
  key never reaches the prototype, so the pair is left out of the encoding and nothing
  else changes. No other key is special: the other properties of \<open>Object.prototype\<close>
  are writable data properties, and an assignment to one of their names creates an own
  property.
\<close>

definition protoKey :: jsstring where
  "protoKey = js ''__proto__''"

fun getBencodeObject :: "IBencodeObject \<Rightarrow> BencodeObject" where
  "getBencodeObject (IBencodeInt obj) = BencodeInt obj"
| "getBencodeObject (IBencodeString obj) = BencodeString obj"
| "getBencodeObject (IBencodeBinaryString obj) = BencodeBinaryString obj"
| "getBencodeObject (IBencodeList list) = BencodeList (map getBencodeObject list)"
| "getBencodeObject (IBencodeDict obj) =
     BencodeDict
       (fold (\<lambda>entry data.
                case snd entry of
                  None \<Rightarrow> data
                | Some v \<Rightarrow>
                    if fst entry = protoKey then data
                    else AList.update (fst entry) (getBencodeObject v) data)
             obj [])"

definition encodeString :: "jsstring \<Rightarrow> BencodeBuffer \<Rightarrow> BencodeBuffer" where
  "encodeString v buffer =
     writeTextUTF8 v
       (writeTextUTF8 (js '':'')
          (writeTextUTF8 (digitsOf (stringByteCountUTF8 v)) buffer))"

text \<open>
  \<open>encode\<close> of the five classes. \<open>sort\<close> is \<open>Array.prototype.sort\<close> without a
  comparator, the lexicographic order of the code units. A sorted key is a key of
  \<open>data\<close>, so the lookup \<open>this.data[currentKey]\<close> always finds a value.
\<close>

function encode :: "BencodeObject \<Rightarrow> BencodeBuffer \<Rightarrow> BencodeBuffer" where
  "encode (BencodeInt v) buffer =
     writeTextUTF8 (js ''e'') (writeTextUTF8 (toString v) (writeTextUTF8 (js ''i'') buffer))"
| "encode (BencodeString v) buffer = encodeString v buffer"
| "encode (BencodeBinaryString v) buffer =
     writeBytes v
       (writeTextUTF8 (js '':'') (writeTextUTF8 (digitsOf (length v)) buffer))"
| "encode (BencodeList data) buffer =
     writeTextUTF8 (js ''e'')
       (fold (\<lambda>d buffer. encode d buffer) data (writeTextUTF8 (js ''l'') buffer))"
| "encode (BencodeDict data) buffer =
     (let buffer = writeTextUTF8 (js ''d'') buffer;
          sortedKeys = sort (map fst data);
          buffer =
            fold (\<lambda>currentKey buffer.
                    case map_of data currentKey of
                      None \<Rightarrow> buffer
                    | Some v \<Rightarrow> encode v (encodeString currentKey buffer))
                 sortedKeys buffer
      in writeTextUTF8 (js ''e'') buffer)"
  by pat_completeness auto
termination
proof (relation "measure (\<lambda>(obj, buffer). size obj)", goal_cases)
  case 1
  show ?case by simp
next
  case (2 data buffer d b)
  then show ?case by (simp add: size_list_estimation' less_Suc_eq_le)
next
  case (3 data buffer x xa xb xc x2)
  from 3(4) have "(xb, x2) \<in> set data" by (rule map_of_SomeD)
  then have "size x2 \<le> size_list (size_prod (\<lambda>_. 0) size) data"
    by (intro size_list_estimation' [where x = "(xb, x2)"]) simp_all
  then show ?case by simp
qed

definition bencode :: "IBencodeObject \<Rightarrow> bytes" where
  "bencode obj = getBytes (encode (getBencodeObject obj) [])"

text \<open>
  The keys of a dictionary in the order in which \<open>encode\<close> writes them
  (\<open>sortedKeys\<close> in the source).
\<close>

definition emittedKeys :: "(jsstring \<times> IBencodeObject option) list \<Rightarrow> jsstring list" where
  "emittedKeys obj =
     (case getBencodeObject (IBencodeDict obj) of
        BencodeDict data \<Rightarrow> sort (map fst data)
      | _ \<Rightarrow> [])"

text \<open>
  The \<open>data\<close> of a \<open>BencodeDict\<close> built from an object whose keys are distinct:
  the entries with a defined value and a key other than \<open>__proto__\<close>, in the order
  of the object.
\<close>

definition dictData :: "(jsstring \<times> IBencodeObject option) list \<Rightarrow> (jsstring \<times> BencodeObject) list" where
  "dictData obj =
     map (\<lambda>entry. (fst entry, getBencodeObject (the (snd entry))))
       (filter (\<lambda>entry. snd entry \<noteq> None \<and> fst entry \<noteq> protoKey) obj)"

text \<open>
  Code units outside the surrogate range, and the UTF-8 bytes of such a code unit as
  numbers.
\<close>

definition noSurrogate :: "16 word \<Rightarrow> bool" where
  "noSurrogate c \<longleftrightarrow> c < 0xD800 \<or> 0xE000 \<le> c"

definition natEnc :: "nat \<Rightarrow> nat list" where
  "natEnc n =
     (if n < 128 then [n]
      else if n < 2048 then [192 + n div 64, 128 + n mod 64]
      else [224 + n div 4096, 128 + n div 64 mod 64, 128 + n mod 64])"

section \<open>Sha1Worker.ts\<close>

text \<open>
  \<open>target.set(src, offset)\<close> on typed arrays: \<open>None\<close> is the \<open>RangeError\<close>
  thrown when the source does not fit.
\<close>

definition typedArraySet :: "bytes \<Rightarrow> bytes \<Rightarrow> nat \<Rightarrow> bytes option" where
  "typedArraySet target src offset =
     (if offset + length src \<le> length target
      then Some (take offset target @ src @ drop (offset + length src) target)
      else None)"

record HashResult =
  result :: bytes
  originalInputs :: "bytes list"

text \<open>
  The module of \<open>sha1.cpp\<close> takes its input in the static array \<open>memoryBuffer\<close> of
  \<open>maxBufferSize\<close> bytes: 16 MiB for the largest piece and 64 bytes for the padding.
  \<open>sha1(sizeInBytes)\<close> pads the input in place: it writes the byte \<open>0x80\<close> after
  the input, then zero bytes until the write index is 56 modulo 64, then the bit length
  in 8 bytes. \<open>paddedSize n\<close> is the write index after that for an input of \<open>n\<close>
  bytes, the number of bytes of \<open>memoryBuffer\<close> that the call uses. An input fits
  the buffer when this is at most \<open>maxBufferSize\<close>, that is when the input has at
  most 16 MiB + 55 bytes.
\<close>

definition maxBufferSize :: nat where
  "maxBufferSize = 16 * 1024 * 1024 + 64"

definition paddedSize :: "nat \<Rightarrow> nat" where
  "paddedSize n = (n + 8) div 64 * 64 + 64"

definition fitsMemoryBuffer :: "bytes \<Rightarrow> bool" where
  "fitsMemoryBuffer bs \<longleftrightarrow> paddedSize (length bs) \<le> maxBufferSize"

text \<open>
  The digests of the module are a parameter of the model: for an input \<open>bytes\<close> that
  fits the buffer, \<open>sha1 bytes\<close> is the content of
  \<open>HEAPU8.subarray(resultPtr, resultPtr + 20)\<close> after \<open>bytes\<close> was copied to
  \<open>memoryBuffer\<close> and \<open>module.sha1(bytes.length)\<close> returned \<open>resultPtr\<close>.
\<close>

type_synonym sha1Module = "bytes \<Rightarrow> bytes"

text \<open>
  The loop of \<open>Sha1WorkerObject.computeHashes\<close>, from index \<open>i\<close> on. An input that
  does not fit the buffer has no result (\<open>None\<close>, the worker throws):
  \<open>HEAPU8.set\<close> throws a \<open>RangeError\<close> when the input ends behind the memory of
  the module, and otherwise the input or its padding is written behind the end of
  \<open>memoryBuffer\<close>, where \<open>sha1.cpp\<close> defines nothing.

  The inputs are given by their contents. Each input is taken to be a view of an
  \<open>ArrayBuffer\<close> of its own that is not detached, as the buffers of the pipeline
  are: the inputs are transferred to the worker and back.
\<close>

fun hashLoop :: "sha1Module \<Rightarrow> bytes list \<Rightarrow> nat \<Rightarrow> bytes \<Rightarrow> bytes option" where
  "hashLoop sha1 [] i res = Some res"
| "hashLoop sha1 (bs # inputs) i res =
     (let hashResultSize = 20; offset = i * hashResultSize in
      if \<not> fitsMemoryBuffer bs then None
      else case typedArraySet res (sha1 bs) offset of
             None \<Rightarrow> None
           | Some res' \<Rightarrow> hashLoop sha1 inputs (i + 1) res')"

definition Sha1WorkerObject_computeHashes :: "sha1Module \<Rightarrow> bytes list \<Rightarrow> HashResult option" where
  "Sha1WorkerObject_computeHashes sha1 inputs =
     (let hashResultSize = 20 in
      case hashLoop sha1 inputs 0 (replicate (length inputs * hashResultSize) 0) of
        None \<Rightarrow> None
      | Some res \<Rightarrow> Some \<lparr>result = res, originalInputs = inputs\<rparr>)"

section \<open>Sha1.ts: the worker pool\<close>

text \<open>
  A call of the pool's \<open>computeHashes\<close>, with an identifier that tells the calls
  apart.
\<close>

record Call =
  callId :: nat
  data_call :: "bytes list"
  creationId_call :: "int option"

text \<open>
  The state of \<open>createWorkerPool\<close>: the free workers (\<open>pop\<close> and \<open>push\<close> work
  at the end of the array), the resolvers of the calls that wait for a worker, and
  \<open>activeCreationId\<close>. \<open>running\<close> holds the calls that await their worker's
  \<open>computeHashes\<close>, \<open>returned\<close> the values that calls have returned (\<open>None\<close>
  is \<open>null\<close>) and \<open>rejected\<close> the calls whose worker threw.
\<close>

record WorkerPool =
  workers :: "nat list"
  waitingResolvers :: "Call list"
  activeCreationId :: int
  running :: "(Call \<times> nat) list"
  returned :: "(nat \<times> HashResult option) list"
  rejected :: "nat list"

definition createWorkerPool :: "nat list \<Rightarrow> WorkerPool" where
  "createWorkerPool ws =
     \<lparr>workers = ws, waitingResolvers = [], activeCreationId = -1, running = [],
      returned = [], rejected = []\<rparr>"

definition isCancelled_pool :: "WorkerPool \<Rightarrow> Call \<Rightarrow> bool" where
  "isCancelled_pool pool call \<longleftrightarrow>
     creationId_call call \<noteq> None \<and> creationId_call call \<noteq> Some (activeCreationId pool)"

text \<open>
  \<open>computeHashes\<close> once the call has its worker (\<open>acquired\<close>): a cancelled call
  returns \<open>null\<close> at once and passes the worker on; any other call sends its data to
  the worker. \<open>release\<close> is the end of \<open>computeHashes\<close>: the worker goes to the
  resolver popped from \<open>waitingResolvers\<close>, or back to \<open>workers\<close> when none waits.
  The call whose resolver is called goes on in the state the resolver was called in: no
  other task runs in between.
\<close>

function acquired :: "nat \<Rightarrow> Call \<Rightarrow> WorkerPool \<Rightarrow> WorkerPool"
  and release :: "nat \<Rightarrow> WorkerPool \<Rightarrow> WorkerPool" where
  "acquired worker call pool =
     (if isCancelled_pool pool call
      then release worker (pool\<lparr>returned := returned pool @ [(callId call, None)]\<rparr>)
      else pool\<lparr>running := running pool @ [(call, worker)]\<rparr>)"
| "release worker pool =
     (if waitingResolvers pool = [] then pool\<lparr>workers := workers pool @ [worker]\<rparr>
      else acquired worker (last (waitingResolvers pool))
             (pool\<lparr>waitingResolvers := butlast (waitingResolvers pool)\<rparr>))"
  by pat_completeness auto
termination
proof (relation "measure (\<lambda>x. case x of
          Inl (w, c, p) \<Rightarrow> 2 * length (waitingResolvers p) + 1
        | Inr (w, p) \<Rightarrow> 2 * length (waitingResolvers p))", goal_cases)
  case (3 worker pool)
  then have "0 < length (waitingResolvers pool)" by simp
  then show ?case by (cases "length (waitingResolvers pool)") simp_all
qed simp_all

declare acquired.simps [simp del] release.simps [simp del]

text \<open>The start of \<open>computeHashes\<close>: take a free worker or wait for one.\<close>

definition computeHashes :: "Call \<Rightarrow> WorkerPool \<Rightarrow> WorkerPool" where
  "computeHashes call pool =
     (if length (workers pool) \<noteq> 0
      then acquired (last (workers pool)) call (pool\<lparr>workers := butlast (workers pool)\<rparr>)
      else pool\<lparr>waitingResolvers := waitingResolvers pool @ [call]\<rparr>)"

text \<open>
  The worker of the running call \<open>cid\<close> answers: the call returns the worker's result
  and releases the worker. When the worker threw, the call rejects and the worker is
  not released.
\<close>

definition workerResponse :: "sha1Module \<Rightarrow> nat \<Rightarrow> WorkerPool \<Rightarrow> WorkerPool" where
  "workerResponse sha1 cid pool =
     (case find (\<lambda>(call, worker). callId call = cid) (running pool) of
        None \<Rightarrow> pool
      | Some (call, worker) \<Rightarrow>
          (let pool = pool\<lparr>running := filter (\<lambda>(c, w). callId c \<noteq> cid) (running pool)\<rparr> in
           case Sha1WorkerObject_computeHashes sha1 (data_call call) of
             None \<Rightarrow> pool\<lparr>rejected := rejected pool @ [cid]\<rparr>
           | Some r \<Rightarrow>
               release worker (pool\<lparr>returned := returned pool @ [(cid, Some r)]\<rparr>)))"


text \<open>
  A stand-in for the SHA-1 module and calls without data, for evaluating the pool on
  concrete inputs.
\<close>

definition toyDigest :: sha1Module where
  "toyDigest bs = replicate 19 0 @ [of_nat (length bs)]"

definition call0 :: "nat \<Rightarrow> Call" where
  "call0 n = \<lparr>callId = n, data_call = [], creationId_call = None\<rparr>"



section \<open>TorrentObject.ts: the hashing pipeline\<close>

text \<open>
  What \<open>calculateHashes\<close> gets from outside while it runs. \<open>awaits\<close> counts the
  \<open>await\<close>s that have returned; between two of them nothing else runs.
  \<^item> \<open>hasBYOB\<close>: the value the code computes for \<open>hasBYOB\<close>;
  \<^item> \<open>getCurrentCreationId n\<close>: what the callback returns after \<open>n\<close> awaits;
  \<^item> \<open>settled n\<close>: how many of the outstanding hash jobs, oldest first, have
    finished when await number \<open>n\<close> returns;
  \<^item> \<open>poolActiveCreationId j\<close>: the pool's \<open>activeCreationId\<close> at the moment the
    \<open>j\<close>-th dispatched job acquires its worker;
  \<^item> \<open>sha1_env\<close>: the module of the workers.
\<close>

record Environment =
  hasBYOB :: bool
  getCurrentCreationId :: "nat \<Rightarrow> int"
  settled :: "nat \<Rightarrow> nat"
  poolActiveCreationId :: "nat \<Rightarrow> int"
  sha1_env :: sha1Module

record Job =
  startPieceIndex :: nat
  inputs_job :: "bytes list"
  inputLength_job :: nat
  jobNumber :: nat

text \<open>
  The local variables of \<open>calculateHashes\<close>. \<open>readAccumulator\<close> is the filled part
  of \<open>readAccumulatorBuffer\<close>, its first \<open>readBufferIndex\<close> bytes; the rest of the
  buffer is never read. \<open>allWorkerPromises\<close> holds the jobs that have not finished,
  \<open>jobRejected\<close> tells whether a finished job threw, and the last three fields record
  the calls of the three callbacks.
\<close>

record HashState =
  piecesLocal :: bytes
  pieceIndex :: nat
  memoryPool :: "bytes list"
  allWorkerPromises :: "Job list"
  jobsDispatched :: nat
  jobRejected :: bool
  readAccumulator :: bytes
  awaits :: nat
  readingProgress :: "nat list"
  processingProgress :: "nat list"
  readingFileStarted :: "jsstring list"

text \<open>The outcome of the \<open>async\<close> function: its promise resolves, rejects or stays pending.\<close>

datatype Promise = Resolved "jsstring option + bytes" | Rejected | Pending

text \<open>
  \<open>Math.ceil(a / b)\<close> for a positive \<open>b\<close>. The piece length is positive: it is a
  value of \<open>getBlockSize\<close>. For \<open>b = 0\<close> the quotient of the source is
  \<open>Infinity\<close> or \<open>NaN\<close>, which this function does not model: every property of the
  pipeline below is stated for a positive piece length.
\<close>

definition ceilDiv :: "nat \<Rightarrow> nat \<Rightarrow> nat" where
  "ceilDiv a b = (a + b - 1) div b"

definition subarray :: "bytes \<Rightarrow> nat \<Rightarrow> nat \<Rightarrow> bytes" where
  "subarray xs begin end = drop begin (take end xs)"

definition readBufferSize :: nat where
  "readBufferSize = 16 * MB"

definition isCancelled :: "Environment \<Rightarrow> int \<Rightarrow> HashState \<Rightarrow> bool" where
  "isCancelled env creationId st \<longleftrightarrow> creationId \<noteq> getCurrentCreationId env (awaits st)"

text \<open>
  The loop of \<open>dispatchSha1Worker\<close> over the piece indices: each piece is copied into
  a buffer popped from \<open>memoryPool\<close>, or into a new buffer of \<open>blockSize\<close> bytes,
  cut to the length of the piece. \<open>None\<close> is the \<open>RangeError\<close> of \<open>set\<close>.
\<close>

fun pieceInputs :: "nat \<Rightarrow> bytes \<Rightarrow> nat list \<Rightarrow> bytes list \<Rightarrow> (bytes list \<times> bytes list) option" where
  "pieceInputs blockSize inputBytes [] pool = Some ([], pool)"
| "pieceInputs blockSize inputBytes (i # rest) pool =
     (let startByteIndex = i * blockSize;
          endByteIndex = min ((i + 1) * blockSize) (length inputBytes);
          byteLength = endByteIndex - startByteIndex;
          buffer = (if pool = [] then replicate blockSize 0 else last pool);
          pool = butlast pool;
          memoryBuffer = subarray buffer 0 byteLength
      in case typedArraySet memoryBuffer (subarray inputBytes startByteIndex endByteIndex) 0 of
           None \<Rightarrow> None
         | Some memoryBuffer \<Rightarrow>
             (case pieceInputs blockSize inputBytes rest pool of
                None \<Rightarrow> None
              | Some (ins, pool) \<Rightarrow> Some (memoryBuffer # ins, pool)))"

definition dispatchSha1Worker :: "nat \<Rightarrow> bytes \<Rightarrow> HashState \<Rightarrow> HashState option" where
  "dispatchSha1Worker blockSize inputBytes st =
     (let inputLength = length inputBytes;
          numPieces = ceilDiv inputLength blockSize;
          start = pieceIndex st;
          st = st\<lparr>pieceIndex := pieceIndex st + numPieces\<rparr>
      in case pieceInputs blockSize inputBytes [0..<numPieces] (memoryPool st) of
           None \<Rightarrow> None
         | Some (ins, pool) \<Rightarrow>
             Some (st\<lparr>memoryPool := pool,
                      allWorkerPromises := allWorkerPromises st @
                        [\<lparr>startPieceIndex = start, inputs_job = ins, inputLength_job = inputLength,
                          jobNumber = jobsDispatched st\<rparr>],
                      jobsDispatched := jobsDispatched st + 1\<rparr>))"

text \<open>
  A hash job finishes (the inner \<open>calculateHashes\<close> of \<open>dispatchSha1Worker\<close>): the
  pool returns \<open>null\<close> when the job's \<open>creationId\<close> is not the active one, otherwise
  the worker's result, which is copied into \<open>piecesLocal\<close>.
\<close>

definition settleJob :: "Environment \<Rightarrow> int \<Rightarrow> Job \<Rightarrow> HashState \<Rightarrow> HashState" where
  "settleJob env creationId job st =
     (if creationId \<noteq> poolActiveCreationId env (jobNumber job) then st
      else case Sha1WorkerObject_computeHashes (sha1_env env) (inputs_job job) of
             None \<Rightarrow> st\<lparr>jobRejected := True\<rparr>
           | Some hashResult \<Rightarrow>
               (let st = st\<lparr>memoryPool := memoryPool st @ originalInputs hashResult\<rparr>;
                    pieceByteIndex = startPieceIndex job * 20
                in case typedArraySet (piecesLocal st) (result hashResult) pieceByteIndex of
                     None \<Rightarrow> st\<lparr>jobRejected := True\<rparr>
                   | Some p \<Rightarrow>
                       st\<lparr>piecesLocal := p,
                          processingProgress := processingProgress st @ [inputLength_job job]\<rparr>))"

text \<open>An \<open>await\<close> of the pipeline returns: some outstanding jobs have finished meanwhile.\<close>

definition await :: "Environment \<Rightarrow> int \<Rightarrow> HashState \<Rightarrow> HashState" where
  "await env creationId st =
     (let n = settled env (awaits st);
          st' = fold (settleJob env creationId) (take n (allWorkerPromises st)) st
      in st'\<lparr>allWorkerPromises := drop n (allWorkerPromises st), awaits := awaits st + 1\<rparr>)"

text \<open>\<open>await Promise.all(allWorkerPromises)\<close> returns: all outstanding jobs have finished.\<close>

definition awaitAll :: "Environment \<Rightarrow> int \<Rightarrow> HashState \<Rightarrow> HashState" where
  "awaitAll env creationId st =
     (let st' = fold (settleJob env creationId) (allWorkerPromises st) st
      in st'\<lparr>allWorkerPromises := [], awaits := awaits st + 1\<rparr>)"

definition onFileChunkRead ::
  "Environment \<Rightarrow> int \<Rightarrow> nat \<Rightarrow> bytes \<Rightarrow> HashState \<Rightarrow> HashState option" where
  "onFileChunkRead env creationId blockSize resultBytes st =
     (if isCancelled env creationId st then Some st
      else
        (let st = st\<lparr>readingProgress := readingProgress st @ [length resultBytes]\<rparr>;
             readBufferIndex = length (readAccumulator st)
         in if readBufferIndex + length resultBytes \<ge> readBufferSize then
              (let remainingSize = readBufferSize - readBufferIndex;
                   full = readAccumulator st @ subarray resultBytes 0 remainingSize;
                   resultBytes = drop remainingSize resultBytes
               in case dispatchSha1Worker blockSize full st of
                    None \<Rightarrow> None
                  | Some st \<Rightarrow>
                      if length resultBytes > readBufferSize then None
                      else Some (st\<lparr>readAccumulator := resultBytes\<rparr>))
            else Some (st\<lparr>readAccumulator := readAccumulator st @ resultBytes\<rparr>)))"

fun joinPath :: "jsstring list \<Rightarrow> jsstring" where
  "joinPath [] = []"
| "joinPath [segment] = segment"
| "joinPath (segment # rest) = segment @ js ''/'' @ joinPath rest"

definition errorReadingFile :: "jsstring \<Rightarrow> jsstring" where
  "errorReadingFile filePath =
     js ''Error reading file: `'' @ filePath @ js ''`'' @ [0x0A] @
     js ''The file might be inaccessible, or might have been modified, moved, or deleted''"

text \<open>
  The loop over \<open>reader.read\<close> of the stream-based version. \<open>Inl\<close> is the outcome
  of \<open>calculateHashes\<close> when the loop ends it, \<open>Inr\<close> the state after the
  \<open>break\<close>. When the stream delivers nothing more the \<open>await\<close> never returns.
\<close>

fun readStream ::
  "Environment \<Rightarrow> int \<Rightarrow> nat \<Rightarrow> jsstring \<Rightarrow> readResult list \<Rightarrow> HashState \<Rightarrow>
   Promise + HashState" where
  "readStream env creationId blockSize filePath [] st = Inl Pending"
| "readStream env creationId blockSize filePath (readResult # rest) st =
     (let st = await env creationId st in
      case readResult of
        ReadError \<Rightarrow> Inl (Resolved (Inl (Some (errorReadingFile filePath))))
      | Read val done \<Rightarrow>
          if isCancelled env creationId st then Inl (Resolved (Inl None))
          else
            (case (case val of
                     None \<Rightarrow> Some st
                   | Some v \<Rightarrow> onFileChunkRead env creationId blockSize v st) of
               None \<Rightarrow> Inl Rejected
             | Some st \<Rightarrow>
                 if done then Inr st
                 else readStream env creationId blockSize filePath rest st))"

text \<open>
  The loop of the \<open>FileReader\<close> version, with \<open>n\<close> reads to go. The handler
  \<open>reader.onerror\<close> is the empty function it was set to before the loop, so after a
  failed read the awaited promise never settles; neither does it when the handler of
  \<open>load\<close> returns early or throws.
\<close>

fun readSlices ::
  "Environment \<Rightarrow> int \<Rightarrow> nat \<Rightarrow> nat \<Rightarrow> readResult list \<Rightarrow> HashState \<Rightarrow> Promise + HashState" where
  "readSlices env creationId blockSize 0 rs st = Inr st"
| "readSlices env creationId blockSize (Suc n) [] st = Inl Pending"
| "readSlices env creationId blockSize (Suc n) (ReadError # rest) st = Inl Pending"
| "readSlices env creationId blockSize (Suc n) (Read None done # rest) st = Inl Pending"
| "readSlices env creationId blockSize (Suc n) (Read (Some v) done # rest) st =
     (let st = await env creationId st in
      case onFileChunkRead env creationId blockSize v st of
        None \<Rightarrow> Inl Pending
      | Some st \<Rightarrow>
          if isCancelled env creationId st then Inl (Resolved (Inl None))
          else readSlices env creationId blockSize n rest st)"

definition readFile ::
  "Environment \<Rightarrow> int \<Rightarrow> nat \<Rightarrow> FileWithPath \<Rightarrow> HashState \<Rightarrow> Promise + HashState" where
  "readFile env creationId blockSize f st =
     (let filePath = joinPath (path f);
          st = st\<lparr>readingFileStarted := readingFileStarted st @ [filePath]\<rparr>
      in if hasBYOB env
         then readStream env creationId blockSize filePath (reads (file_fp f)) st
         else readSlices env creationId blockSize
                (ceilDiv (size_file (file_fp f)) readBufferSize) (reads (file_fp f)) st)"

fun readFiles ::
  "Environment \<Rightarrow> int \<Rightarrow> nat \<Rightarrow> FileWithPath list \<Rightarrow> HashState \<Rightarrow> Promise + HashState" where
  "readFiles env creationId blockSize [] st = Inr st"
| "readFiles env creationId blockSize (f # rest) st =
     (if size_file (file_fp f) = 0 then readFiles env creationId blockSize rest st
      else case readFile env creationId blockSize f st of
             Inl outcome \<Rightarrow> Inl outcome
           | Inr st \<Rightarrow> readFiles env creationId blockSize rest st)"

text \<open>The state when the loop over the files starts, after \<open>await workerPoolPromise\<close>.\<close>

definition startState :: "Environment \<Rightarrow> nat \<Rightarrow> nat \<Rightarrow> int \<Rightarrow> HashState" where
  "startState env totalSize blockSize creationId =
     (let totalBlockCount = ceilDiv totalSize blockSize
      in await env creationId
           \<lparr>piecesLocal = replicate (totalBlockCount * 20) 0, pieceIndex = 0, memoryPool = [],
            allWorkerPromises = [], jobsDispatched = 0, jobRejected = False,
            readAccumulator = [], awaits = 0, readingProgress = [],
            processingProgress = [], readingFileStarted = []\<rparr>)"

definition calculateHashes ::
  "Environment \<Rightarrow> FileWithPath list \<Rightarrow> nat \<Rightarrow> nat \<Rightarrow> int \<Rightarrow> Promise" where
  "calculateHashes env inputFiles totalSize blockSize creationId =
     (case readFiles env creationId blockSize inputFiles
             (startState env totalSize blockSize creationId) of
        Inl outcome \<Rightarrow> outcome
      | Inr st \<Rightarrow>
          (case (if length (readAccumulator st) \<noteq> 0
                 then dispatchSha1Worker blockSize (readAccumulator st) st else Some st) of
             None \<Rightarrow> Rejected
           | Some st \<Rightarrow>
               if isCancelled env creationId st then Resolved (Inl None)
               else
                 (let st = awaitAll env creationId st
                  in if jobRejected st then Rejected
                     else if isCancelled env creationId st then Resolved (Inl None)
                     else Resolved (Inr (piecesLocal st)))))"

text \<open>
  An environment in which nothing is cancelled: both identifiers stay at \<open>creationId\<close>,
  the jobs finish only at the final barrier, and the module is the stand-in.
\<close>

definition steadyEnv :: "bool \<Rightarrow> int \<Rightarrow> Environment" where
  "steadyEnv byob creationId =
     \<lparr>hasBYOB = byob, getCurrentCreationId = (\<lambda>n. creationId), settled = (\<lambda>n. 0),
      poolActiveCreationId = (\<lambda>j. creationId), sha1_env = toyDigest\<rparr>"

text \<open>
  The stream loop over a prefix of the read results, as long as it goes on: the state
  after the prefix, or \<open>None\<close> when the loop has ended within it.
\<close>

fun streamPrefix ::
  "Environment \<Rightarrow> int \<Rightarrow> nat \<Rightarrow> readResult list \<Rightarrow> HashState \<Rightarrow> HashState option" where
  "streamPrefix env creationId blockSize [] st = Some st"
| "streamPrefix env creationId blockSize (readResult # rest) st =
     (let st = await env creationId st in
      case readResult of
        ReadError \<Rightarrow> None
      | Read val done \<Rightarrow>
          if isCancelled env creationId st then None
          else
            (case (case val of
                     None \<Rightarrow> Some st
                   | Some v \<Rightarrow> onFileChunkRead env creationId blockSize v st) of
               None \<Rightarrow> None
             | Some st \<Rightarrow>
                 if done then None else streamPrefix env creationId blockSize rest st))"

text \<open>The message of a failed read in the specification's words.\<close>

definition specErrorReadingFile :: "jsstring \<Rightarrow> jsstring" where
  "specErrorReadingFile filePath =
     js ''Error reading file: `'' @ filePath @
     js ''`. The file might be inaccessible, or might have been modified, moved, or deleted.''"

section \<open>Properties of the validator\<close>

lemma checkTrackers_None_iff:
  "checkTrackers parseURL ts = None \<longleftrightarrow> (\<forall>t\<in>set ts. trackerAccepted parseURL t)"
  by (induction ts) (auto simp: trackerAccepted_def split: option.splits)

lemma checkTrackers_first_failure:
  "\<forall>x\<in>set pre. trackerAccepted parseURL x \<Longrightarrow>
   checkTrackers parseURL (pre @ t # rest) =
     (if trackerAccepted parseURL t then checkTrackers parseURL rest
      else Some (if parseURL t = None then errTrackerUrl t else errTrackerPath t))"
  by (induction pre) (auto simp: trackerAccepted_def split: option.splits)

lemma checkWebSeeds_None_iff:
  "checkWebSeeds parseURL ws = None \<longleftrightarrow> (\<forall>w\<in>set ws. parseURL w \<noteq> None)"
  by (induction ws) (auto split: option.splits)

text \<open>
  C7. \<open>validateTorrentInput\<close> returns the first failure in a fixed order: an empty
  name gives exactly "Torrent name cannot be empty"; a name of more than 255 code units
  gives exactly "Torrent name cannot be longer than 255 characters"; a name that passes
  both and holds one of the reserved characters gives the reserved-character message;
  all three whatever the trackers and web seeds are. A tracker error comes before any
  web-seed error, and the result is ok exactly when no check fails.
\<close>

theorem validateTorrentInput_first_failure:
  "(name p = [] \<longrightarrow>
      validateTorrentInput parseURL p = Inl (js ''Torrent name cannot be empty'')) \<and>
   (length (name p) > 255 \<longrightarrow>
      validateTorrentInput parseURL p =
        Inl (js ''Torrent name cannot be longer than 255 characters'')) \<and>
   (name p \<noteq> [] \<and> length (name p) \<le> 255 \<and> list_ex isReservedChar (name p) \<longrightarrow>
      validateTorrentInput parseURL p = Inl errReservedName) \<and>
   (name p \<noteq> [] \<and> length (name p) \<le> 255 \<and> \<not> list_ex isReservedChar (name p) \<and>
    checkTrackers parseURL (getLines (trackers p)) = Some e \<longrightarrow>
      validateTorrentInput parseURL p = Inl e) \<and>
   (validateTorrentInput parseURL p = Inr () \<longleftrightarrow>
      name p \<noteq> [] \<and> length (name p) \<le> 255 \<and> \<not> list_ex isReservedChar (name p) \<and>
      (\<forall>t\<in>set (getLines (trackers p)). trackerAccepted parseURL t) \<and>
      (\<forall>w\<in>set (getLines (webSeeds p)). parseURL w \<noteq> None))"
  unfolding checkTrackers_None_iff [symmetric] checkWebSeeds_None_iff [symmetric]
  by (auto simp: validateTorrentInput_def errEmptyName_def errLongName_def
           split: option.splits)

theorem validateTorrentInput_first_failure_witness:
  "validateTorrentInput (tableParser [])
     \<lparr>name = [], blockSize_ui = Auto, isPrivate = False, setCreationDate = False,
      trackers = js ''x'', webSeeds = js ''y'', comment = [], source = []\<rparr>
     = Inl (js ''Torrent name cannot be empty'') \<and>
   validateTorrentInput (tableParser [])
     \<lparr>name = replicate 256 0x3A, blockSize_ui = Auto, isPrivate = False,
      setCreationDate = False, trackers = js ''x'', webSeeds = js ''y'', comment = [],
      source = []\<rparr>
     = Inl (js ''Torrent name cannot be longer than 255 characters'') \<and>
   validateTorrentInput (tableParser [])
     \<lparr>name = js ''a:b'', blockSize_ui = Auto, isPrivate = False, setCreationDate = False,
      trackers = js ''x'', webSeeds = js ''y'', comment = [], source = []\<rparr>
     = Inl errReservedName \<and>
   validateTorrentInput (tableParser [(js ''http://t/announce'', js ''/announce'')])
     \<lparr>name = js ''ab'', blockSize_ui = Auto, isPrivate = False, setCreationDate = False,
      trackers = js ''http://t/announce'', webSeeds = [], comment = [], source = []\<rparr>
     = Inr ()"
proof -
  let ?P = "tableParser []"
  let ?Q = "tableParser [(js ''http://t/announce'', js ''/announce'')]"
  let ?p1 = "\<lparr>name = [], blockSize_ui = Auto, isPrivate = False, setCreationDate = False,
      trackers = js ''x'', webSeeds = js ''y'', comment = [], source = []\<rparr>"
  let ?p2 = "\<lparr>name = replicate 256 (0x3A :: 16 word), blockSize_ui = Auto, isPrivate = False,
      setCreationDate = False, trackers = js ''x'', webSeeds = js ''y'', comment = [],
      source = []\<rparr>"
  let ?p3 = "\<lparr>name = js ''a:b'', blockSize_ui = Auto, isPrivate = False,
      setCreationDate = False, trackers = js ''x'', webSeeds = js ''y'', comment = [],
      source = []\<rparr>"
  let ?p4 = "\<lparr>name = js ''ab'', blockSize_ui = Auto, isPrivate = False,
      setCreationDate = False, trackers = js ''http://t/announce'', webSeeds = [],
      comment = [], source = []\<rparr>"
  have 1: "validateTorrentInput ?P ?p1 = Inl (js ''Torrent name cannot be empty'')"
    using validateTorrentInput_first_failure [of ?p1 ?P] by simp
  have 2: "validateTorrentInput ?P ?p2 =
             Inl (js ''Torrent name cannot be longer than 255 characters'')"
    using validateTorrentInput_first_failure [of ?p2 ?P] by simp
  have r3: "list_ex isReservedChar (js ''a:b'')"
    by (simp add: js_def isReservedChar_def)
  have n3: "js ''a:b'' \<noteq> []" "length (js ''a:b'') \<le> 255"
    by (simp_all add: js_def)
  have 3: "validateTorrentInput ?P ?p3 = Inl errReservedName"
    using validateTorrentInput_first_failure [of ?p3 ?P] r3 n3 by simp
  have r4: "\<not> list_ex isReservedChar (js ''ab'')"
    by (simp add: js_def isReservedChar_def)
  have t4: "getLines (js ''http://t/announce'') = [js ''http://t/announce'']"
    by code_simp
  have a4: "trackerAccepted ?Q (js ''http://t/announce'')"
    by code_simp
  have w4: "getLines [] = []"
    by (simp add: getLines_def)
  have n4: "js ''ab'' \<noteq> []" "length (js ''ab'') \<le> 255"
    by (simp_all add: js_def)
  have 4: "validateTorrentInput ?Q ?p4 = Inr ()"
    using validateTorrentInput_first_failure [of ?p4 ?Q] r4 n4 t4 a4 w4 by simp
  from 1 2 3 4 show ?thesis by blast
qed

text \<open>
  C8 as stated fails: a token whose path is \<open>/xannounce\<close> parses and its path ends
  with \<open>announce\<close>, yet the validator rejects it.
\<close>

theorem tracker_suffix_counterexample:
  "specTrackerAccepted (tableParser [(js ''http://t.co/xannounce'', js ''/xannounce'')])
     (js ''http://t.co/xannounce'') \<and>
   validateTorrentInput (tableParser [(js ''http://t.co/xannounce'', js ''/xannounce'')])
     \<lparr>name = js ''a'', blockSize_ui = Auto, isPrivate = False, setCreationDate = False,
      trackers = js ''http://t.co/xannounce'', webSeeds = [], comment = [], source = []\<rparr>
   = Inl (errTrackerPath (js ''http://t.co/xannounce''))"
  by code_simp

text \<open>
  C8, amended. A tracker token is accepted exactly when it parses as a URL whose path
  ends with \<open>/announce\<close> or \<open>/announce/\<close>. When the name checks pass and all tokens
  before \<open>t\<close> are accepted, validation goes on to the tokens after \<open>t\<close> if \<open>t\<close> is
  accepted, and otherwise returns the error of \<open>t\<close>: "not a valid URL" when it does
  not parse, "URL must end with announce or announce/" when its path does not match.
\<close>

theorem tracker_validation:
  assumes "name p \<noteq> []" and "length (name p) \<le> 255"
    and "\<not> list_ex isReservedChar (name p)"
    and "getLines (trackers p) = pre @ t # rest"
    and "\<forall>x\<in>set pre. trackerAccepted parseURL x"
  shows "(trackerAccepted parseURL t \<longleftrightarrow>
            (\<exists>url. parseURL t = Some url \<and>
               (endsWith (pathname url) (js ''/announce'') \<or>
                endsWith (pathname url) (js ''/announce/'')))) \<and>
         validateTorrentInput parseURL p =
           (if trackerAccepted parseURL t then
              (case checkTrackers parseURL rest of
                 Some e \<Rightarrow> Inl e
               | None \<Rightarrow>
                   (case checkWebSeeds parseURL (getLines (webSeeds p)) of
                      Some e \<Rightarrow> Inl e
                    | None \<Rightarrow> Inr ()))
            else if parseURL t = None then Inl (errTrackerUrl t)
            else Inl (errTrackerPath t))"
proof -
  have "trackerAccepted parseURL t \<longleftrightarrow>
          (\<exists>url. parseURL t = Some url \<and>
             (endsWith (pathname url) (js ''/announce'') \<or>
              endsWith (pathname url) (js ''/announce/'')))"
    by (auto simp: trackerAccepted_def announcePathTest_def split: option.splits)
  moreover have "validateTorrentInput parseURL p =
           (if trackerAccepted parseURL t then
              (case checkTrackers parseURL rest of
                 Some e \<Rightarrow> Inl e
               | None \<Rightarrow>
                   (case checkWebSeeds parseURL (getLines (webSeeds p)) of
                      Some e \<Rightarrow> Inl e
                    | None \<Rightarrow> Inr ()))
            else if parseURL t = None then Inl (errTrackerUrl t)
            else Inl (errTrackerPath t))"
    using assms(1-3) checkTrackers_first_failure [OF assms(5), of t rest]
    by (simp add: validateTorrentInput_def assms(4))
  ultimately show ?thesis by blast
qed

theorem tracker_validation_witness:
  "validateTorrentInput
     (tableParser [(js ''http://a/announce'', js ''/announce''),
                   (js ''http://b/xannounce'', js ''/xannounce'')])
     \<lparr>name = js ''n'', blockSize_ui = Auto, isPrivate = False, setCreationDate = False,
      trackers = js ''http://a/announce http://b/xannounce'', webSeeds = [],
      comment = [], source = []\<rparr>
   = Inl (errTrackerPath (js ''http://b/xannounce''))"
proof -
  let ?P = "tableParser [(js ''http://a/announce'', js ''/announce''),
                   (js ''http://b/xannounce'', js ''/xannounce'')]"
  let ?p = "\<lparr>name = js ''n'', blockSize_ui = Auto, isPrivate = False,
      setCreationDate = False, trackers = js ''http://a/announce http://b/xannounce'',
      webSeeds = [], comment = [], source = []\<rparr>"
  have n: "name ?p \<noteq> []" "length (name ?p) \<le> 255" "\<not> list_ex isReservedChar (name ?p)"
    by (simp_all add: js_def isReservedChar_def)
  have l: "getLines (trackers ?p) = [js ''http://a/announce''] @ js ''http://b/xannounce'' # []"
    by code_simp
  have a: "\<forall>x\<in>set [js ''http://a/announce'']. trackerAccepted ?P x"
    by code_simp
  have b: "\<not> trackerAccepted ?P (js ''http://b/xannounce'')"
    by code_simp
  have c: "?P (js ''http://b/xannounce'') \<noteq> None"
    by code_simp
  show ?thesis
    using tracker_validation [OF n l a] b c by simp
qed

text \<open>
  C10. The result of \<open>validateTorrentInput\<close> depends on the name, the trackers and
  the web seeds only: two parameter records that agree on these three fields get the
  same result, whatever their other fields are.
\<close>

theorem validateTorrentInput_depends_on:
  assumes "name p = name q" and "trackers p = trackers q" and "webSeeds p = webSeeds q"
  shows "validateTorrentInput parseURL p = validateTorrentInput parseURL q"
  unfolding validateTorrentInput_def assms ..

theorem validateTorrentInput_depends_on_witness:
  "validateTorrentInput (tableParser [])
     \<lparr>name = js ''n'', blockSize_ui = Auto, isPrivate = False, setCreationDate = False,
      trackers = js ''t'', webSeeds = [], comment = js ''c'', source = [] \<rparr> =
   validateTorrentInput (tableParser [])
     \<lparr>name = js ''n'', blockSize_ui = MB16, isPrivate = True, setCreationDate = True,
      trackers = js ''t'', webSeeds = [], comment = [], source = js ''s''\<rparr>"
  by (rule validateTorrentInput_depends_on) simp_all

section \<open>Properties of the piece length\<close>

lemma shiftLeft1_small:
  assumes "14 \<le> k" "k \<le> (24::int)"
  shows "nat (sint (shiftLeft1 (Num (of_int k)))) = 2 ^ nat k"
proof -
  from assms have "k \<in> {14, 15, 16, 17, 18, 19, 20, 21, 22, 23, 24}"
    by simp presburger
  then show ?thesis
    by (elim insertE emptyE) simp_all
qed

lemma getAutoBlockSize_formula:
  assumes "0 < totalSize"
  shows "getAutoBlockSize totalSize =
           2 ^ nat (min (max (round (log 2 (real totalSize / 1200))) 14) 24)"
proof -
  define k where "k = min (max (round (log 2 (real totalSize / 1200))) 14) 24"
  have "Math_min (Math_max (Math_round (Math_log2 (real totalSize / 1200))) (Num 14)) (Num 24)
          = Num (of_int k)"
    using assms by (simp add: Math_log2_def k_def round_def max_def min_def)
  moreover have "14 \<le> k" "k \<le> 24"
    by (simp_all add: k_def)
  ultimately show ?thesis
    using shiftLeft1_small [of k] by (simp add: getAutoBlockSize_def k_def)
qed

lemma getAutoBlockSize_zero: "getAutoBlockSize 0 = 2 ^ 14"
  by (simp add: getAutoBlockSize_def Math_log2_def)

lemma round_log2_1000: "round (log 2 1000) = 10"
proof -
  have sq: "log 2 (1000 ^ 2) = 2 * log 2 1000"
    by (subst log_nat_power) simp_all
  have lo: "log 2 (2 ^ 19) = 19" and hi: "log 2 (2 ^ 21) = 21"
    by (subst log_nat_power; simp)+
  have "log 2 (2 ^ 19) \<le> log 2 (1000 ^ 2)"
    by (subst log_le_cancel_iff) simp_all
  then have a: "19 \<le> 2 * log 2 1000"
    unfolding sq lo .
  have "log 2 (1000 ^ 2) < log 2 (2 ^ 21)"
    by (subst log_less_cancel_iff) simp_all
  then have b: "2 * log 2 1000 < 21"
    unfolding sq hi .
  show ?thesis unfolding round_def using a b by (simp add: floor_eq_iff)
qed

lemma getBlockSize_fixed:
  "getBlockSize KB16 n = 2 ^ 14" "getBlockSize KB32 n = 2 ^ 15" "getBlockSize KB64 n = 2 ^ 16"
  "getBlockSize KB128 n = 2 ^ 17" "getBlockSize KB256 n = 2 ^ 18"
  "getBlockSize KB512 n = 2 ^ 19" "getBlockSize MB1 n = 2 ^ 20" "getBlockSize MB2 n = 2 ^ 21"
  "getBlockSize MB4 n = 2 ^ 22" "getBlockSize MB8 n = 2 ^ 23" "getBlockSize MB16 n = 2 ^ 24"
  by (simp_all add: KB_def MB_def)

lemma getBlockSize_power_of_two:
  "\<exists>k. 14 \<le> k \<and> k \<le> 24 \<and> getBlockSize bs totalSize = 2 ^ k"
proof (cases bs)
  case Auto
  show ?thesis
  proof (cases "totalSize = 0")
    case True
    with Auto show ?thesis
      by (intro exI [of _ 14]) (simp add: getAutoBlockSize_zero)
  next
    case False
    define k where "k = min (max (round (log 2 (real totalSize / 1200))) 14) 24"
    have "14 \<le> nat k" "nat k \<le> 24"
      by (simp_all add: k_def)
    with Auto False show ?thesis
      by (intro exI [of _ "nat k"]) (simp add: getAutoBlockSize_formula k_def)
  qed
next
  case KB16 then show ?thesis using getBlockSize_fixed(1) [of totalSize] by (intro exI [of _ 14]) simp next
  case KB32 then show ?thesis using getBlockSize_fixed(2) [of totalSize] by (intro exI [of _ 15]) simp next
  case KB64 then show ?thesis using getBlockSize_fixed(3) [of totalSize] by (intro exI [of _ 16]) simp next
  case KB128 then show ?thesis using getBlockSize_fixed(4) [of totalSize] by (intro exI [of _ 17]) simp next
  case KB256 then show ?thesis using getBlockSize_fixed(5) [of totalSize] by (intro exI [of _ 18]) simp next
  case KB512 then show ?thesis using getBlockSize_fixed(6) [of totalSize] by (intro exI [of _ 19]) simp next
  case MB1 then show ?thesis using getBlockSize_fixed(7) [of totalSize] by (intro exI [of _ 20]) simp next
  case MB2 then show ?thesis using getBlockSize_fixed(8) [of totalSize] by (intro exI [of _ 21]) simp next
  case MB4 then show ?thesis using getBlockSize_fixed(9) [of totalSize] by (intro exI [of _ 22]) simp next
  case MB8 then show ?thesis using getBlockSize_fixed(10) [of totalSize] by (intro exI [of _ 23]) simp next
  case MB16 then show ?thesis using getBlockSize_fixed(11) [of totalSize] by (intro exI [of _ 24]) simp
qed

text \<open>
  C5. For every total size and every piece-size choice \<open>getBlockSize\<close> returns a
  power of two between \<open>2^14\<close> and \<open>2^24\<close>. The automatic choice returns
  \<open>1 << clamp(round(log2(totalSize / 1200)), 14, 24)\<close> (and \<open>2^14\<close> at total size
  0, where the logarithm is minus infinity), and 16384 for a total size of 1,200,000.
\<close>

theorem getBlockSize_range:
  "(\<exists>k. 14 \<le> k \<and> k \<le> 24 \<and> getBlockSize bs totalSize = 2 ^ k) \<and>
   (0 < totalSize \<longrightarrow>
      getBlockSize Auto totalSize =
        2 ^ nat (min (max (round (log 2 (real totalSize / 1200))) 14) 24)) \<and>
   getBlockSize Auto 0 = 2 ^ 14 \<and>
   getBlockSize Auto 1200000 = 16384"
proof -
  have "getBlockSize Auto 1200000 = 16384"
    using getAutoBlockSize_formula [of 1200000] round_log2_1000 by simp
  then show ?thesis
    using getBlockSize_power_of_two [of bs totalSize]
    by (simp add: getAutoBlockSize_formula getAutoBlockSize_zero)
qed

theorem getBlockSize_range_witness:
  "(0::nat) < 1200000 \<and>
   getBlockSize Auto 1200000 =
     2 ^ nat (min (max (round (log 2 (real 1200000 / 1200))) 14) 24) \<and>
   getBlockSize Auto 1200000 = 16384 \<and>
   (\<exists>k. 14 \<le> k \<and> k \<le> 24 \<and> getBlockSize MB4 1200000 = 2 ^ k)"
  using getBlockSize_range [of Auto 1200000] getBlockSize_range [of MB4 1200000]
  by simp

section \<open>Properties of the assembler\<close>

lemma assembleTorrentObject_no_selection:
  assumes "validateTorrentInput parseURL ui = Inr ()"
  shows "\<exists>t. assembleTorrentObject parseURL now ui None blockSize = Inr t \<and>
             length_info (info t) = None \<and> files (info t) = None"
  using assms by (simp add: assembleTorrentObject_def Let_def)

text \<open>
  C6. For validated parameters and a selection \<open>sel\<close>: when the root is a bare file
  \<open>f\<close>, the assembled \<open>info\<close> has \<open>length\<close> equal to the size of \<open>f\<close> and no
  \<open>files\<close>; when the root is a folder, \<open>info\<close> has \<open>files\<close> equal to the
  \<open>{length, path}\<close> entries of the file list in its order and no \<open>length\<close>. In both
  modes exactly one of the two keys is present.
\<close>

theorem assembleTorrentObject_length_or_files:
  assumes "validateTorrentInput parseURL ui = Inr ()"
  shows "(input sel = InputFile f \<longrightarrow>
            (\<exists>t. assembleTorrentObject parseURL now ui (Some sel) blockSize = Inr t \<and>
                 length_info (info t) = Some (size_file f) \<and> files (info t) = None)) \<and>
         (input sel = InputFolder rootFolder \<longrightarrow>
            (\<exists>t. assembleTorrentObject parseURL now ui (Some sel) blockSize = Inr t \<and>
                 files (info t) =
                   Some (map (\<lambda>fp. \<lparr>length_tf = size_file (file_fp fp), path_tf = path fp\<rparr>)
                          (fileList sel)) \<and>
                 length_info (info t) = None)) \<and>
         (\<exists>t. assembleTorrentObject parseURL now ui (Some sel) blockSize = Inr t \<and>
              (length_info (info t) = None) \<noteq> (files (info t) = None))"
  using assms by (cases "input sel") (simp_all add: assembleTorrentObject_def Let_def)

theorem assembleTorrentObject_length_or_files_witness:
  "(\<exists>t. assembleTorrentObject (tableParser []) 0
          \<lparr>name = js ''a.txt'', blockSize_ui = Auto, isPrivate = False, setCreationDate = False,
           trackers = [], webSeeds = [], comment = [], source = []\<rparr>
          (Some \<lparr>name_sel = js ''a.txt'', size_sel = 5,
                 input = InputFile \<lparr>size_file = 5, reads = []\<rparr>,
                 fileList = [\<lparr>path = [js ''a.txt''], file_fp = \<lparr>size_file = 5, reads = []\<rparr>\<rparr>]\<rparr>)
          16384 = Inr t \<and>
        length_info (info t) = Some 5 \<and> files (info t) = None) \<and>
   (\<exists>t. assembleTorrentObject (tableParser []) 0
          \<lparr>name = js ''d'', blockSize_ui = Auto, isPrivate = False, setCreationDate = False,
           trackers = [], webSeeds = [], comment = [], source = []\<rparr>
          (Some \<lparr>name_sel = js ''d'', size_sel = 2,
                 input = InputFolder (FolderElement [] []),
                 fileList = [\<lparr>path = [js ''a''], file_fp = \<lparr>size_file = 2, reads = []\<rparr>\<rparr>]\<rparr>)
          16384 = Inr t \<and>
        files (info t) = Some [\<lparr>length_tf = 2, path_tf = [js ''a'']\<rparr>] \<and>
        length_info (info t) = None)"
proof -
  let ?u1 = "\<lparr>name = js ''a.txt'', blockSize_ui = Auto, isPrivate = False,
           setCreationDate = False, trackers = [], webSeeds = [], comment = [],
           source = []\<rparr>"
  let ?u2 = "\<lparr>name = js ''d'', blockSize_ui = Auto, isPrivate = False,
           setCreationDate = False, trackers = [], webSeeds = [], comment = [],
           source = []\<rparr>"
  let ?s1 = "\<lparr>name_sel = js ''a.txt'', size_sel = 5,
                 input = InputFile \<lparr>size_file = 5, reads = []\<rparr>,
                 fileList = [\<lparr>path = [js ''a.txt''], file_fp = \<lparr>size_file = 5, reads = []\<rparr>\<rparr>]\<rparr>"
  let ?s2 = "\<lparr>name_sel = js ''d'', size_sel = 2,
                 input = InputFolder (FolderElement [] []),
                 fileList = [\<lparr>path = [js ''a''], file_fp = \<lparr>size_file = 2, reads = []\<rparr>\<rparr>]\<rparr>"
  have v1: "validateTorrentInput (tableParser []) ?u1 = Inr ()"
    by code_simp
  have v2: "validateTorrentInput (tableParser []) ?u2 = Inr ()"
    by code_simp
  show ?thesis
    using assembleTorrentObject_length_or_files
        [OF v1, where sel = ?s1 and f = "\<lparr>size_file = 5, reads = []\<rparr>" and now = 0
           and blockSize = 16384]
      assembleTorrentObject_length_or_files
        [OF v2, where sel = ?s2 and rootFolder = "FolderElement [] []" and now = 0
           and blockSize = 16384]
    by simp
qed

section \<open>Properties of the Bencode encoder\<close>

lemma getBytes_write [simp]:
  "getBytes (writeTextUTF8 t buf) = getBytes buf @ toUTF8Bytes t"
  "getBytes (writeBytes b buf) = getBytes buf @ b"
  "getBytes [] = []"
  by (simp_all add: getBytes_def writeTextUTF8_def writeBytes_def)

lemma getBytes_encodeString:
  "getBytes (encodeString v buf) =
     getBytes buf @ toUTF8Bytes (digitsOf (stringByteCountUTF8 v)) @ toUTF8Bytes (js '':'') @
     toUTF8Bytes v"
  by (simp add: encodeString_def)

lemma getBytes_fold_append:
  assumes "\<And>x buf. x \<in> set xs \<Longrightarrow> getBytes (f x buf) = getBytes buf @ g x"
  shows "getBytes (fold f xs buf) = getBytes buf @ concat (map g xs)"
  using assms by (induction xs arbitrary: buf) simp_all

lemma getBytes_encode:
  "getBytes (encode obj buf) = getBytes buf @ getBytes (encode obj [])"
proof (induction obj buf rule: encode.induct)
  case (4 data buffer)
  have *: "getBytes (fold (\<lambda>d buffer. encode d buffer) data b) =
           getBytes b @ concat (map (\<lambda>d. getBytes (encode d [])) data)" for b
    by (rule getBytes_fold_append) (use 4 in blast)
  show ?case by (simp add: *)
next
  case (5 data buffer)
  let ?g = "\<lambda>k. case map_of data k of None \<Rightarrow> []
             | Some v \<Rightarrow> getBytes (encodeString k []) @ getBytes (encode v [])"
  have *: "getBytes (fold (\<lambda>currentKey buffer.
                    case map_of data currentKey of
                      None \<Rightarrow> buffer
                    | Some v \<Rightarrow> encode v (encodeString currentKey buffer))
                 (sort (map fst data)) b) =
           getBytes b @ concat (map ?g (sort (map fst data)))" for b
  proof (rule getBytes_fold_append, goal_cases)
    case (1 x buf)
    show ?case
    proof (cases "map_of data x")
      case None
      then show ?thesis by simp
    next
      case (Some v)
      have "getBytes (encode v (encodeString x buf)) =
              getBytes (encodeString x buf) @ getBytes (encode v [])"
        using 5 [OF refl refl 1 Some] .
      then show ?thesis using Some by (simp add: getBytes_encodeString)
    qed
  qed
  show ?case by (simp add: * Let_def)
qed (simp_all add: getBytes_encodeString)

lemma update_fresh: "k \<notin> fst ` set al \<Longrightarrow> AList.update k v al = al @ [(k, v)]"
  by (induction al) auto

lemma fold_update_distinct:
  assumes "distinct (map fst obj)" and "fst ` set obj \<inter> fst ` set acc = {}"
  shows "fold (\<lambda>entry data.
                case snd entry of
                  None \<Rightarrow> data
                | Some v \<Rightarrow>
                    if fst entry = protoKey then data
                    else AList.update (fst entry) (getBencodeObject v) data) obj acc =
         acc @ dictData obj"
  using assms
proof (induction obj arbitrary: acc)
  case Nil
  then show ?case by (simp add: dictData_def)
next
  case (Cons e obj)
  show ?case
  proof (cases "snd e")
    case None
    with Cons show ?thesis by (simp add: dictData_def)
  next
    case (Some v)
    show ?thesis
    proof (cases "fst e = protoKey")
      case True
      with Cons Some show ?thesis by (simp add: dictData_def)
    next
      case False
      have fresh: "fst e \<notin> fst ` set acc" using Cons.prems by auto
      have "fst ` set obj \<inter> fst ` set (acc @ [(fst e, getBencodeObject v)]) = {}"
        using Cons.prems by auto
      with Cons Some fresh False show ?thesis
        by (simp add: update_fresh dictData_def)
    qed
  qed
qed

lemma getBencodeObject_dict:
  "distinct (map fst obj) \<Longrightarrow> getBencodeObject (IBencodeDict obj) = BencodeDict (dictData obj)"
  using fold_update_distinct [of obj "[]"] by simp

lemma map_fst_dictData:
  "map fst (dictData obj) =
     map fst (filter (\<lambda>entry. snd entry \<noteq> None \<and> fst entry \<noteq> protoKey) obj)"
  by (simp add: dictData_def comp_def)

lemma emittedKeys_eq:
  "distinct (map fst obj) \<Longrightarrow>
   emittedKeys obj =
     sort (map fst (filter (\<lambda>entry. snd entry \<noteq> None \<and> fst entry \<noteq> protoKey) obj))"
  by (simp add: emittedKeys_def getBencodeObject_dict map_fst_dictData
        del: getBencodeObject.simps)

lemma distinct_dictData: "distinct (map fst obj) \<Longrightarrow> distinct (map fst (dictData obj))"
  unfolding map_fst_dictData by (rule distinct_map_filter)

lemma map_of_dictData:
  assumes "distinct (map fst obj)" and "(k, Some v) \<in> set obj" and "k \<noteq> protoKey"
  shows "map_of (dictData obj) k = Some (getBencodeObject v)"
proof -
  have "(k, getBencodeObject v) \<in> set (dictData obj)"
    using assms(2,3) by (force simp: dictData_def)
  then show ?thesis
    using distinct_dictData [OF assms(1)] by simp
qed

lemma set_emittedKeys:
  "distinct (map fst obj) \<Longrightarrow>
   set (emittedKeys obj) = {k. \<exists>v. (k, Some v) \<in> set obj \<and> k \<noteq> protoKey}"
  by (force simp: emittedKeys_eq)

lemma encode_dict_bytes:
  "getBytes (encode (BencodeDict data) []) =
     toUTF8Bytes (js ''d'') @
     concat (map (\<lambda>k. case map_of data k of None \<Rightarrow> []
                      | Some v \<Rightarrow> getBytes (encodeString k []) @ getBytes (encode v []))
               (sort (map fst data))) @
     toUTF8Bytes (js ''e'')"
proof -
  have "getBytes (fold (\<lambda>currentKey buffer.
                    case map_of data currentKey of
                      None \<Rightarrow> buffer
                    | Some v \<Rightarrow> encode v (encodeString currentKey buffer))
                 (sort (map fst data)) b) =
        getBytes b @
        concat (map (\<lambda>k. case map_of data k of None \<Rightarrow> []
                      | Some v \<Rightarrow> getBytes (encodeString k []) @ getBytes (encode v []))
               (sort (map fst data)))" for b
  proof (rule getBytes_fold_append, goal_cases)
    case (1 x buf)
    show ?case
      by (cases "map_of data x")
         (simp_all add: getBytes_encode [of _ "encodeString x buf"] getBytes_encodeString)
  qed
  then show ?thesis by (simp add: Let_def)
qed

lemma ascii_d: "toUTF8Bytes (js ''d'') = ascii ''d''" and ascii_e: "toUTF8Bytes (js ''e'') = ascii ''e''"
  by code_simp+

lemma bencode_dict:
  assumes "distinct (map fst obj)"
  shows "bencode (IBencodeDict obj) =
           ascii ''d'' @
           concat (map (\<lambda>k. bencode (IBencodeString k) @ bencode (the (the (map_of obj k))))
                     (emittedKeys obj)) @
           ascii ''e''"
proof -
  have "(case map_of (dictData obj) k of None \<Rightarrow> []
         | Some v \<Rightarrow> getBytes (encodeString k []) @ getBytes (encode v [])) =
        bencode (IBencodeString k) @ bencode (the (the (map_of obj k)))"
    if "k \<in> set (sort (map fst (dictData obj)))" for k
  proof -
    from that obtain v where v: "(k, Some v) \<in> set obj" and n: "k \<noteq> protoKey"
      by (force simp: dictData_def)
    then have "map_of obj k = Some (Some v)" using assms by simp
    with map_of_dictData [OF assms v n] show ?thesis
      by (simp add: bencode_def)
  qed
  then have M: "map (\<lambda>k. case map_of (dictData obj) k of None \<Rightarrow> []
                      | Some v \<Rightarrow> getBytes (encodeString k []) @ getBytes (encode v []))
               (sort (map fst (dictData obj))) =
             map (\<lambda>k. bencode (IBencodeString k) @ bencode (the (the (map_of obj k))))
               (sort (map fst (dictData obj)))"
    by (intro map_cong refl)
  have D: "getBencodeObject (IBencodeDict obj) = BencodeDict (dictData obj)"
    using assms by (rule getBencodeObject_dict)
  have K: "emittedKeys obj = sort (map fst (dictData obj))"
    by (simp add: emittedKeys_def D del: getBencodeObject.simps)
  show ?thesis
    by (simp only: bencode_def [of "IBencodeDict obj"] D encode_dict_bytes K ascii_d ascii_e M)
qed

lemma bencode_dict_permute:
  assumes "distinct (map fst obj)" and "distinct (map fst obj')" and "set obj' = set obj"
  shows "bencode (IBencodeDict obj') = bencode (IBencodeDict obj)"
proof -
  have m: "map_of obj' = map_of obj"
    using assms by (simp add: map_of_inject_set)
  have "set (emittedKeys obj') = set (emittedKeys obj)"
    using assms by (simp add: set_emittedKeys)
  moreover have "sorted (emittedKeys obj)" "sorted (emittedKeys obj')"
    using assms by (simp_all add: emittedKeys_eq)
  moreover have "distinct (emittedKeys obj)" "distinct (emittedKeys obj')"
    using assms by (simp_all add: emittedKeys_eq distinct_map_filter)
  ultimately have "emittedKeys obj' = emittedKeys obj"
    by (intro sorted_distinct_set_unique)
  with m show ?thesis
    by (simp add: bencode_dict assms)
qed

lemma or_const_add:
  fixes a C :: "32 word"
  assumes "unat a < B" and "\<forall>k\<in>set [0..<B]. C OR of_nat k = C + of_nat k"
  shows "C OR a = C + a"
proof -
  have "unat a \<in> set [0..<B]" using assms(1) by simp
  with assms(2) have "C OR of_nat (unat a) = C + of_nat (unat a)" by blast
  then show ?thesis by simp
qed

lemma or_e0: "unat (a :: 32 word) < 16 \<Longrightarrow> 0xe0 OR a = 0xe0 + a"
  by (rule or_const_add [where B = 16]) (assumption, code_simp)

lemma or_c0: "unat (a :: 32 word) < 32 \<Longrightarrow> 0xc0 OR a = 0xc0 + a"
  by (rule or_const_add [where B = 32]) (assumption, code_simp)

lemma or_80: "unat (a :: 32 word) < 64 \<Longrightarrow> 0x80 OR a = 0x80 + a"
  by (rule or_const_add [where B = 64]) (assumption, code_simp)

lemma unat_and_3f: "unat ((x :: 32 word) AND 0x3f) = unat x mod 64"
proof -
  have "x AND 0x3f = take_bit 6 x"
    by (simp add: take_bit_eq_mask mask_eq_exp_minus_1)
  then show ?thesis
    by (simp add: take_bit_eq_mod unat_mod)
qed

lemma unat_drop:
  "unat (drop_bit 6 (x :: 32 word)) = unat x div 64"
  "unat (drop_bit 12 (x :: 32 word)) = unat x div 4096"
  by (simp_all add: drop_bit_eq_div unat_div)

lemma unat_ucast_16_32: "unat (ucast (c :: 16 word) :: 32 word) = unat c"
  by (simp add: unsigned_ucast_eq take_bit_nat_eq_self_iff)
     (rule less_trans [OF unsigned_less], simp)

lemma unat_byte_add:
  fixes a :: "32 word"
  assumes "unat a < B" and "C + B \<le> 256"
  shows "unat (ucast (of_nat C + a) :: 8 word) = C + unat a"
proof -
  have "unat (of_nat C + a :: 32 word) = C + unat a"
    using assms by (simp add: unat_word_ariths unat_of_nat take_bit_nat_eq_self_iff)
  then show ?thesis
    using assms by (simp add: unsigned_ucast_eq take_bit_nat_eq_self_iff)
qed

lemma toUTF8Bytes_unit:
  assumes "noSurrogate c"
  shows "map unat (toUTF8Bytes (c # cs)) = natEnc (unat c) @ map unat (toUTF8Bytes cs)"
proof -
  define x where "x = (ucast c :: 32 word)"
  define n where "n = unat c"
  have xn: "unat x = n" by (simp add: x_def n_def unat_ucast_16_32)
  have n16: "n < 65536" unfolding n_def using unsigned_less [of c] by simp
  have lt: "x < 0x80 \<longleftrightarrow> n < 128" "x < 0x800 \<longleftrightarrow> n < 2048"
    by (simp_all add: word_less_nat_alt xn)
  have ns: "x < 0xd800 \<or> x \<ge> 0xe000"
    using assms by (simp add: noSurrogate_def word_less_nat_alt word_le_nat_alt xn n_def)
  consider "n < 128" | "128 \<le> n" "n < 2048" | "2048 \<le> n" by linarith
  then show ?thesis
  proof cases
    case 1
    then have "unat (ucast x :: 8 word) = n"
      by (simp add: unsigned_ucast_eq take_bit_nat_eq_self_iff xn)
    with 1 show ?thesis
      by (simp add: lt natEnc_def flip: x_def n_def)
  next
    case 2
    have a: "unat (drop_bit 6 x) < 32" using 2 by (simp add: unat_drop xn)
    have b: "unat (x AND 0x3f) < 64" by (simp add: unat_and_3f)
    have "unat (ucast (0xc0 OR drop_bit 6 x) :: 8 word) = 192 + n div 64"
      using unat_byte_add [OF a, of 192] by (simp add: or_c0 [OF a] unat_drop xn)
    moreover have "unat (ucast (0x80 OR (x AND 0x3f)) :: 8 word) = 128 + n mod 64"
      using unat_byte_add [OF b, of 128] by (simp add: or_80 [OF b] unat_and_3f xn)
    ultimately show ?thesis
      using 2 by (simp add: lt natEnc_def flip: x_def n_def)
  next
    case 3
    have a: "unat (drop_bit 12 x) < 16" using n16 by (simp add: unat_drop xn)
    have b: "unat (drop_bit 6 x AND 0x3f) < 64" by (simp add: unat_and_3f)
    have c: "unat (x AND 0x3f) < 64" by (simp add: unat_and_3f)
    have "unat (ucast (0xe0 OR drop_bit 12 x) :: 8 word) = 224 + n div 4096"
      using unat_byte_add [OF a, of 224] by (simp add: or_e0 [OF a] unat_drop xn)
    moreover have "unat (ucast (0x80 OR (drop_bit 6 x AND 0x3f)) :: 8 word) = 128 + n div 64 mod 64"
      using unat_byte_add [OF b, of 128] by (simp add: or_80 [OF b] unat_and_3f unat_drop xn)
    moreover have "unat (ucast (0x80 OR (x AND 0x3f)) :: 8 word) = 128 + n mod 64"
      using unat_byte_add [OF c, of 128] by (simp add: or_80 [OF c] unat_and_3f xn)
    ultimately show ?thesis
      using 3 ns by (simp add: lt natEnc_def flip: x_def n_def)
  qed
qed

lemma div_mod_lex:
  fixes n m k :: nat
  assumes "n < m"
  shows "n div k < m div k \<or> (n div k = m div k \<and> n mod k < m mod k)"
proof -
  have "n div k \<le> m div k" using assms by (simp add: div_le_mono)
  moreover have "n mod k < m mod k" if "n div k = m div k"
  proof -
    from that have "n div k * k = m div k * k" by simp
    with assms div_mult_mod_eq [of n k] div_mult_mod_eq [of m k] show ?thesis
      by linarith
  qed
  ultimately show ?thesis by linarith
qed

lemma natEnc_less:
  assumes "n < m" and "m < 65536"
  shows "natEnc n @ r1 < natEnc m @ r2"
proof -
  have A: "n div 64 < m div 64 \<or> (n div 64 = m div 64 \<and> n mod 64 < m mod 64)"
    using assms(1) by (rule div_mod_lex)
  have d: "x mod 4096 div 64 = x div 64 mod 64" and e: "x mod 4096 mod 64 = x mod 64"
    for x :: nat
    by (simp_all add: mod_mult2_eq [of x 64 64, simplified] mod_mod_cancel)
  have B: "n div 4096 < m div 4096 \<or>
           (n div 4096 = m div 4096 \<and>
            (n div 64 mod 64 < m div 64 mod 64 \<or>
             (n div 64 mod 64 = m div 64 mod 64 \<and> n mod 64 < m mod 64)))"
    using div_mod_lex [OF assms(1), of 4096]
      div_mod_lex [of "n mod 4096" "m mod 4096" 64]
    by (auto simp: d e)
  show ?thesis
    using assms A B by (auto simp: natEnc_def)
qed

lemma natEnc_nonempty: "natEnc n \<noteq> []"
  by (simp add: natEnc_def)

lemma append_less_cancel: "(xs :: ('a :: linorder) list) @ r1 < xs @ r2 \<longleftrightarrow> r1 < r2"
  by (induction xs) simp_all

lemma bytes_less_iff: "(bs1 :: bytes) < bs2 \<longleftrightarrow> map unat bs1 < map unat bs2"
proof (induction bs1 arbitrary: bs2)
  case Nil
  then show ?case by (cases bs2) simp_all
next
  case (Cons b bs1)
  then show ?case
    by (cases bs2) (simp_all add: word_less_nat_alt word_unat_eq_iff)
qed

lemma toUTF8Bytes_strict_mono:
  assumes "\<forall>c\<in>set s. noSurrogate c" and "\<forall>c\<in>set t. noSurrogate c" and "s < t"
  shows "toUTF8Bytes s < toUTF8Bytes t"
  using assms
proof (induction s arbitrary: t)
  case Nil
  then obtain d ds where t: "t = d # ds" by (cases t) auto
  with Nil have "noSurrogate d" by simp
  from toUTF8Bytes_unit [OF this, of ds] have "toUTF8Bytes t \<noteq> []"
    using natEnc_nonempty [of "unat d"] unfolding t by auto
  then show ?case by (cases "toUTF8Bytes t") simp_all
next
  case (Cons c cs)
  then obtain d ds where t: "t = d # ds" by (cases t) auto
  from Cons.prems t have nc: "noSurrogate c" and nd: "noSurrogate d" by simp_all
  have ec: "map unat (toUTF8Bytes (c # cs)) = natEnc (unat c) @ map unat (toUTF8Bytes cs)"
    using nc by (rule toUTF8Bytes_unit)
  have ed: "map unat (toUTF8Bytes (d # ds)) = natEnc (unat d) @ map unat (toUTF8Bytes ds)"
    using nd by (rule toUTF8Bytes_unit)
  from Cons.prems(3) t consider "c < d" | "c = d" "cs < ds" by auto
  then show ?case
  proof cases
    case 1
    then have "unat c < unat d" by (simp add: word_less_nat_alt)
    moreover have "unat d < 65536" using unsigned_less [of d] by simp
    ultimately show ?thesis
      unfolding t bytes_less_iff ec ed by (rule natEnc_less)
  next
    case 2
    have "toUTF8Bytes cs < toUTF8Bytes ds"
      using Cons.IH [of ds] Cons.prems t 2 by simp
    then show ?thesis
      unfolding t bytes_less_iff [of "toUTF8Bytes (c # cs)"] ec ed
      using 2 by (simp add: append_less_cancel bytes_less_iff)
  qed
qed

lemma sorted_toUTF8Bytes:
  assumes "sorted ks" and "\<forall>k\<in>set ks. \<forall>c\<in>set k. noSurrogate c"
  shows "sorted (map toUTF8Bytes ks)"
proof -
  have "sorted_wrt (\<lambda>a b. toUTF8Bytes a \<le> toUTF8Bytes b) ks"
  proof (rule sorted_wrt_mono_rel [of ks "(\<le>)"])
    fix a b assume "a \<in> set ks" "b \<in> set ks" "a \<le> b"
    then show "toUTF8Bytes a \<le> toUTF8Bytes b"
      using toUTF8Bytes_strict_mono [of a b] assms(2)
      by (cases "a = b") (auto simp: less_le)
  qed (use assms(1) in simp)
  then show ?thesis by (simp add: sorted_map)
qed

text \<open>
  C1 as stated fails: \<open>Array.prototype.sort\<close> orders the keys by UTF-16 code
  units, and a key that starts with a surrogate pair (code unit \<open>0xD800\<close>, UTF-8
  lead byte \<open>0xF0\<close>) is written before the key \<open>U+E000\<close> (UTF-8 lead byte
  \<open>0xEE\<close>), so the emitted keys are not in ascending order of their UTF-8 bytes.
\<close>

theorem bencode_dict_utf8_order_counterexample:
  "emittedKeys [([0xE000], Some (IBencodeInt 1)), ([0xD800, 0xDC00], Some (IBencodeInt 2))] =
     [[0xD800, 0xDC00], [0xE000]] \<and>
   \<not> sorted (map toUTF8Bytes
     (emittedKeys [([0xE000], Some (IBencodeInt 1)), ([0xD800, 0xDC00], Some (IBencodeInt 2))])) \<and>
   bencode (IBencodeDict
     [([0xE000], Some (IBencodeInt 1)), ([0xD800, 0xDC00], Some (IBencodeInt 2))]) =
     ascii ''d4:'' @ [0xF0, 0x90, 0x80, 0x80] @ ascii ''i2e3:'' @ [0xEE, 0x80, 0x80] @
     ascii ''i1ee''"
  by code_simp

text \<open>
  The pair of the key \<open>__proto__\<close> is not written:
  \<open>{"__proto__": "x", "a": "y"}\<close> encodes to \<open>d1:a1:ye\<close>.
\<close>

lemma bencode_proto_key:
  "bencode (IBencodeDict [(protoKey, Some (IBencodeString (js ''x''))),
                          (js ''a'', Some (IBencodeString (js ''y'')))]) =
     ascii ''d1:a1:ye''"
  by code_simp

text \<open>
  C1, amended. For a dictionary (an object with distinct keys) none of whose keys is
  \<open>__proto__\<close>, \<open>encode\<close> emits \<open>d\<close>, then for each key with a defined value
  the key as a string followed by the value, the keys in ascending lexicographic order
  of their UTF-16 code units, then \<open>e\<close>. When no key holds a surrogate code unit
  this is the ascending order of the keys' UTF-8 bytes. Two such dictionaries that
  differ only in the order of their entries encode to the same bytes, and
  \<open>{"b": "x", "a": "y"}\<close> encodes to \<open>d1:a1:y1:b1:xe\<close>.
\<close>

theorem bencode_dict_sorted:
  assumes "distinct (map fst obj)" and "protoKey \<notin> fst ` set obj"
  shows "bencode (IBencodeDict obj) =
           ascii ''d'' @
           concat (map (\<lambda>k. bencode (IBencodeString k) @ bencode (the (the (map_of obj k))))
                     (emittedKeys obj)) @
           ascii ''e'' \<and>
         sorted (emittedKeys obj) \<and> distinct (emittedKeys obj) \<and>
         set (emittedKeys obj) = {k. \<exists>v. (k, Some v) \<in> set obj} \<and>
         ((\<forall>k\<in>set (emittedKeys obj). \<forall>c\<in>set k. noSurrogate c) \<longrightarrow>
            sorted (map toUTF8Bytes (emittedKeys obj))) \<and>
         (\<forall>obj'. distinct (map fst obj') \<and> set obj' = set obj \<longrightarrow>
            bencode (IBencodeDict obj') = bencode (IBencodeDict obj)) \<and>
         bencode (IBencodeDict [(js ''b'', Some (IBencodeString (js ''x''))),
                                (js ''a'', Some (IBencodeString (js ''y'')))]) =
           ascii ''d1:a1:y1:b1:xe''"
proof -
  have s: "sorted (emittedKeys obj)" and d: "distinct (emittedKeys obj)"
    using assms(1) by (simp_all add: emittedKeys_eq distinct_map_filter)
  have k: "set (emittedKeys obj) = {k. \<exists>v. (k, Some v) \<in> set obj}"
    unfolding set_emittedKeys [OF assms(1)] using assms(2) by force
  have u: "sorted (map toUTF8Bytes (emittedKeys obj))"
    if "\<forall>k\<in>set (emittedKeys obj). \<forall>c\<in>set k. noSurrogate c"
    using s that by (rule sorted_toUTF8Bytes)
  have p: "bencode (IBencodeDict obj') = bencode (IBencodeDict obj)"
    if "distinct (map fst obj')" "set obj' = set obj" for obj'
    using assms(1) that by (rule bencode_dict_permute)
  have e: "bencode (IBencodeDict [(js ''b'', Some (IBencodeString (js ''x''))),
                                (js ''a'', Some (IBencodeString (js ''y'')))]) =
           ascii ''d1:a1:y1:b1:xe''"
    by code_simp
  from bencode_dict [OF assms(1)] s d k u p e show ?thesis
    by blast
qed

theorem bencode_dict_sorted_witness:
  "emittedKeys [(js ''b'', Some (IBencodeString (js ''x''))),
                (js ''a'', Some (IBencodeString (js ''y'')))] = [js ''a'', js ''b''] \<and>
   sorted (map toUTF8Bytes [js ''a'', js ''b'']) \<and>
   bencode (IBencodeDict [(js ''a'', Some (IBencodeString (js ''y''))),
                          (js ''b'', Some (IBencodeString (js ''x'')))]) =
   bencode (IBencodeDict [(js ''b'', Some (IBencodeString (js ''x''))),
                          (js ''a'', Some (IBencodeString (js ''y'')))])"
proof -
  let ?obj = "[(js ''b'', Some (IBencodeString (js ''x''))),
               (js ''a'', Some (IBencodeString (js ''y'')))]"
  let ?obj' = "[(js ''a'', Some (IBencodeString (js ''y''))),
                (js ''b'', Some (IBencodeString (js ''x'')))]"
  have d: "distinct (map fst ?obj)" by (simp add: js_def)
  have q: "protoKey \<notin> fst ` set ?obj" by (simp add: js_def protoKey_def)
  have d': "distinct (map fst ?obj') \<and> set ?obj' = set ?obj" by (auto simp: js_def)
  have k: "emittedKeys ?obj = [js ''a'', js ''b'']" by code_simp
  have n: "\<forall>k\<in>set [js ''a'', js ''b'']. \<forall>c\<in>set k. noSurrogate c"
    by (simp add: js_def noSurrogate_def)
  from bencode_dict_sorted [OF d q] d' k n show ?thesis
    by (metis (no_types, lifting))
qed

section \<open>Properties of the worker pool\<close>







lemma release_last:
  assumes "waitingResolvers pool = ws @ [c]"
  shows "release worker pool = acquired worker c (pool\<lparr>waitingResolvers := ws\<rparr>)"
  using assms by (simp add: release.simps [of worker pool])







text \<open>
  C4 as stated fails: with one worker held by call 0, calls 1 and 2 arrive in this
  order and wait; when call 0 finishes, the worker goes to call 2 and call 1, which
  arrived first, still waits.
\<close>

theorem pool_fifo_counterexample:
  "map callId (waitingResolvers
     (computeHashes (call0 2) (computeHashes (call0 1) (computeHashes (call0 0)
        (createWorkerPool [0]))))) = [1, 2] \<and>
   map (\<lambda>(c, w). callId c) (running
     (workerResponse toyDigest 0
        (computeHashes (call0 2) (computeHashes (call0 1) (computeHashes (call0 0)
           (createWorkerPool [0])))))) = [2] \<and>
   map callId (waitingResolvers
     (workerResponse toyDigest 0
        (computeHashes (call0 2) (computeHashes (call0 1) (computeHashes (call0 0)
           (createWorkerPool [0])))))) = [1]"
  by code_simp

text \<open>
  C4, amended. The wait list is a stack: a call that finds no free worker pushes its
  resolver at the end of \<open>waitingResolvers\<close>, and a worker that becomes free is
  handed to the resolver popped from the end, the call that arrived last. When that call
  is not cancelled it gets the worker and all earlier arrivals keep waiting.
\<close>

theorem pool_wait_stack:
  "(workers pool = [] \<longrightarrow>
      waitingResolvers (computeHashes call pool) = waitingResolvers pool @ [call]) \<and>
   (waitingResolvers pool = ws @ [c] \<longrightarrow>
      release worker pool = acquired worker c (pool\<lparr>waitingResolvers := ws\<rparr>)) \<and>
   (waitingResolvers pool = ws @ [c] \<and> \<not> isCancelled_pool pool c \<longrightarrow>
      release worker pool =
        pool\<lparr>waitingResolvers := ws, running := running pool @ [(c, worker)]\<rparr>)"
  using release_last [of pool ws c worker]
  by (auto simp: computeHashes_def isCancelled_pool_def
        acquired.simps [of worker c "pool\<lparr>waitingResolvers := ws\<rparr>"])

theorem pool_wait_stack_witness:
  "release 0 ((createWorkerPool []) \<lparr>waitingResolvers := [call0 1, call0 2]\<rparr>) =
     (createWorkerPool []) \<lparr>waitingResolvers := [call0 1], running := [(call0 2, 0)]\<rparr>"
proof -
  let ?pool = "(createWorkerPool []) \<lparr>waitingResolvers := [call0 1, call0 2]\<rparr>"
  have w: "waitingResolvers ?pool = [call0 1] @ [call0 2]" by simp
  have n: "\<not> isCancelled_pool ?pool (call0 2)"
    by (simp add: isCancelled_pool_def call0_def)
  from pool_wait_stack [of ?pool "call0 0" "[call0 1]" "call0 2" 0] w n
  have "release 0 ?pool =
          ?pool\<lparr>waitingResolvers := [call0 1], running := running ?pool @ [(call0 2, 0)]\<rparr>"
    by blast
  then show ?thesis
    by (simp add: createWorkerPool_def)
qed

section \<open>Properties of the hashing pipeline\<close>

lemma typedArraySet_length:
  "typedArraySet target src offset = Some t \<Longrightarrow> length t = length target"
  by (auto simp: typedArraySet_def split: if_splits)

lemma settleJob_length [simp]:
  "length (piecesLocal (settleJob env creationId job st)) = length (piecesLocal st)"
  by (auto simp: settleJob_def Let_def dest: typedArraySet_length split: option.splits)

lemma fold_settleJob_length [simp]:
  "length (piecesLocal (fold (settleJob env creationId) jobs st)) = length (piecesLocal st)"
  by (induction jobs arbitrary: st) simp_all

lemma await_length [simp]:
  "length (piecesLocal (await env creationId st)) = length (piecesLocal st)"
  by (simp add: await_def Let_def)

lemma awaitAll_length [simp]:
  "length (piecesLocal (awaitAll env creationId st)) = length (piecesLocal st)"
  by (simp add: awaitAll_def Let_def)

lemma dispatchSha1Worker_pieces:
  "dispatchSha1Worker blockSize inputBytes st = Some st' \<Longrightarrow> piecesLocal st' = piecesLocal st"
  by (auto simp: dispatchSha1Worker_def Let_def split: option.splits)

lemma onFileChunkRead_pieces:
  "onFileChunkRead env creationId blockSize v st = Some st' \<Longrightarrow>
     piecesLocal st' = piecesLocal st"
  by (auto simp: onFileChunkRead_def Let_def dest!: dispatchSha1Worker_pieces
      split: if_splits option.splits)

lemma readStream_length:
  "readStream env creationId blockSize filePath rs st = Inr st' \<Longrightarrow>
     length (piecesLocal st') = length (piecesLocal st)"
proof (induction rs arbitrary: st)
  case Nil
  then show ?case by simp
next
  case (Cons r rs)
  show ?case
  proof (cases r)
    case ReadError
    with Cons.prems show ?thesis by (simp add: Let_def)
  next
    case (Read val fin)
    let ?st = "await env creationId st"
    from Cons.prems Read obtain st1 where
      st1: "(case val of None \<Rightarrow> Some ?st
             | Some v \<Rightarrow> onFileChunkRead env creationId blockSize v ?st) = Some st1"
      and rest: "(if fin then Inr st1
                  else readStream env creationId blockSize filePath rs st1) = Inr st'"
      by (auto simp: Let_def split: if_splits option.splits)
    have "piecesLocal st1 = piecesLocal ?st"
      using st1 by (auto split: option.splits dest: onFileChunkRead_pieces)
    moreover have "length (piecesLocal st') = length (piecesLocal st1)"
      using rest Cons.IH [of st1] by (auto split: if_splits)
    ultimately show ?thesis by simp
  qed
qed

lemma readSlices_length:
  "readSlices env creationId blockSize n rs st = Inr st' \<Longrightarrow>
     length (piecesLocal st') = length (piecesLocal st)"
proof (induction env creationId blockSize n rs st rule: readSlices.induct)
  case (5 env creationId blockSize n v fin rest st)
  let ?st = "await env creationId st"
  from "5.prems" obtain st1 where
    st1: "onFileChunkRead env creationId blockSize v ?st = Some st1"
    and nc: "\<not> isCancelled env creationId st1"
    and rest: "readSlices env creationId blockSize n rest st1 = Inr st'"
    by (auto simp: Let_def split: if_splits option.splits)
  have "length (piecesLocal st') = length (piecesLocal st1)"
    using "5.IH" [OF refl st1 nc rest] .
  then show ?case
    using onFileChunkRead_pieces [OF st1] by simp
qed simp_all

lemma readFile_length:
  "readFile env creationId blockSize f st = Inr st' \<Longrightarrow>
     length (piecesLocal st') = length (piecesLocal st)"
  by (auto simp: readFile_def Let_def dest: readStream_length readSlices_length
      split: if_splits)

lemma readFiles_length:
  "readFiles env creationId blockSize fs st = Inr st' \<Longrightarrow>
     length (piecesLocal st') = length (piecesLocal st)"
proof (induction fs arbitrary: st)
  case Nil
  then show ?case by simp
next
  case (Cons f fs)
  show ?case
  proof (cases "size_file (file_fp f) = 0")
    case True
    with Cons show ?thesis by simp
  next
    case False
    with Cons.prems obtain st1 where
      "readFile env creationId blockSize f st = Inr st1"
      "readFiles env creationId blockSize fs st1 = Inr st'"
      by (auto split: sum.splits)
    with Cons.IH [of st1] show ?thesis
      by (simp add: readFile_length)
  qed
qed

lemma startState_length:
  "length (piecesLocal (startState env totalSize blockSize creationId)) =
     ceilDiv totalSize blockSize * 20"
  by (simp add: startState_def Let_def)

lemma readStream_outcome:
  "readStream env creationId blockSize filePath rs st \<noteq> Inl (Resolved (Inr ps))"
proof (induction rs arbitrary: st)
  case Nil
  show ?case by simp
next
  case (Cons r rs)
  show ?case
  proof (cases r)
    case ReadError
    then show ?thesis by (simp add: Let_def)
  next
    case (Read val fin)
    then show ?thesis
      using Cons.IH by (auto simp: Let_def split: option.splits)
  qed
qed

lemma readSlices_outcome:
  "readSlices env creationId blockSize n rs st \<noteq> Inl (Resolved (Inr ps))"
  by (induction env creationId blockSize n rs st rule: readSlices.induct)
     (auto simp: Let_def split: option.splits)

lemma readFiles_outcome:
  "readFiles env creationId blockSize fs st \<noteq> Inl (Resolved (Inr ps))"
proof (induction fs arbitrary: st)
  case Nil
  show ?case by simp
next
  case (Cons f fs)
  have "readFile env creationId blockSize f st \<noteq> Inl (Resolved (Inr ps))"
    by (simp add: readFile_def Let_def readStream_outcome readSlices_outcome)
  with Cons show ?case
    by (auto split: sum.splits)
qed

lemma calculateHashes_length:
  assumes "calculateHashes env inputFiles totalSize blockSize creationId = Resolved (Inr ps)"
  shows "length ps = ceilDiv totalSize blockSize * 20"
proof -
  from assms obtain st st1 where
    r: "readFiles env creationId blockSize inputFiles
          (startState env totalSize blockSize creationId) = Inr st"
    and d: "(if length (readAccumulator st) \<noteq> 0
             then dispatchSha1Worker blockSize (readAccumulator st) st else Some st) = Some st1"
    and p: "ps = piecesLocal (awaitAll env creationId st1)"
    using readFiles_outcome [of env creationId blockSize inputFiles _ ps]
    by (auto simp: calculateHashes_def Let_def split: sum.splits option.splits if_splits)
  have "piecesLocal st1 = piecesLocal st"
    using d by (auto split: if_splits dest: dispatchSha1Worker_pieces)
  with readFiles_length [OF r] p show ?thesis
    by (simp add: startState_length)
qed

lemma readFiles_skip_empty:
  "readFiles env creationId blockSize (filter (\<lambda>f. size_file (file_fp f) \<noteq> 0) fs) st =
     readFiles env creationId blockSize fs st"
  by (induction fs arbitrary: st) (auto split: sum.splits)

lemma ceilDiv_ceiling:
  assumes "0 < b"
  shows "int (ceilDiv a b) = \<lceil>real a / real b\<rceil>"
proof -
  define q where "q = (a + b - 1) div b"
  have "q * b \<le> a + b - 1" unfolding q_def by simp
  moreover have "a + b - 1 < (q + 1) * b"
    unfolding q_def using assms by (metis Suc_eq_plus1 dividend_less_div_times mult.commute mult_Suc_right add.commute)
  ultimately have 1: "q * b < a + b" and 2: "a \<le> q * b"
    using assms by auto
  have "real q - 1 < real a / real b"
  proof -
    from 1 have "real q * real b < real a + real b"
      by (metis of_nat_add of_nat_less_iff of_nat_mult)
    then have "(real q - 1) * real b < real a" by (simp add: algebra_simps)
    then show ?thesis using assms by (simp add: pos_less_divide_eq)
  qed
  moreover have "real a / real b \<le> real q"
  proof -
    from 2 have "real a \<le> real q * real b"
      by (metis of_nat_le_iff of_nat_mult)
    then show ?thesis using assms by (simp add: pos_divide_le_eq)
  qed
  ultimately have "\<lceil>real a / real b\<rceil> = int q"
    by (intro ceiling_unique) simp_all
  then show ?thesis by (simp add: ceilDiv_def q_def)
qed

lemma readFiles_append:
  "readFiles env creationId blockSize (pre @ post) st =
     (case readFiles env creationId blockSize pre st of
        Inl outcome \<Rightarrow> Inl outcome
      | Inr st' \<Rightarrow> readFiles env creationId blockSize post st')"
  by (induction pre arbitrary: st) (auto split: sum.splits)

lemma readStream_prefix:
  "streamPrefix env creationId blockSize rs st = Some st' \<Longrightarrow>
     readStream env creationId blockSize filePath (rs @ later) st =
     readStream env creationId blockSize filePath later st'"
proof (induction rs arbitrary: st)
  case Nil
  then show ?case by simp
next
  case (Cons r rs)
  show ?case
  proof (cases r)
    case ReadError
    with Cons.prems show ?thesis by (simp add: Let_def)
  next
    case (Read val fin)
    let ?st = "await env creationId st"
    from Cons.prems Read obtain st1 where
      "\<not> isCancelled env creationId ?st"
      "(case val of None \<Rightarrow> Some ?st
        | Some v \<Rightarrow> onFileChunkRead env creationId blockSize v ?st) = Some st1"
      "\<not> fin" "streamPrefix env creationId blockSize rs st1 = Some st'"
      by (auto simp: Let_def split: if_splits option.splits)
    with Cons.IH [of st1] Read show ?thesis
      by (simp add: Let_def)
  qed
qed

lemma readStream_error:
  "readStream env creationId blockSize filePath (ReadError # rest) st =
     Inl (Resolved (Inl (Some (errorReadingFile filePath))))"
  by (simp add: Let_def)

text \<open>
  C2. For a positive piece length the piece table is allocated with
  \<open>ceil(totalSize / blockSize) * 20\<close> bytes and, when \<open>calculateHashes\<close> succeeds,
  the table it returns has exactly this length. A file of size 0 is skipped: the loop
  over the files goes on with the state unchanged, so that removing the empty files
  from the input changes nothing in the outcome.
\<close>

theorem calculateHashes_piece_table:
  assumes "0 < blockSize"
  shows "int (length (piecesLocal (startState env totalSize blockSize creationId))) =
           \<lceil>real totalSize / real blockSize\<rceil> * 20 \<and>
         (calculateHashes env inputFiles totalSize blockSize creationId = Resolved (Inr ps) \<longrightarrow>
            int (length ps) = \<lceil>real totalSize / real blockSize\<rceil> * 20) \<and>
         (size_file (file_fp f) = 0 \<longrightarrow>
            readFiles env creationId blockSize (f # rest) st =
            readFiles env creationId blockSize rest st) \<and>
         calculateHashes env (filter (\<lambda>f. size_file (file_fp f) \<noteq> 0) inputFiles)
           totalSize blockSize creationId =
         calculateHashes env inputFiles totalSize blockSize creationId"
proof -
  have c: "int (ceilDiv totalSize blockSize * 20) = \<lceil>real totalSize / real blockSize\<rceil> * 20"
    using ceilDiv_ceiling [OF assms, of totalSize] by simp
  have 1: "int (length (piecesLocal (startState env totalSize blockSize creationId))) =
           \<lceil>real totalSize / real blockSize\<rceil> * 20"
    unfolding startState_length c ..
  have 2: "int (length ps) = \<lceil>real totalSize / real blockSize\<rceil> * 20"
    if "calculateHashes env inputFiles totalSize blockSize creationId = Resolved (Inr ps)"
    unfolding calculateHashes_length [OF that] c ..
  have 3: "calculateHashes env (filter (\<lambda>f. size_file (file_fp f) \<noteq> 0) inputFiles)
             totalSize blockSize creationId =
           calculateHashes env inputFiles totalSize blockSize creationId"
    unfolding calculateHashes_def readFiles_skip_empty ..
  from 1 2 3 show ?thesis by simp
qed

lemmas pipe_eval =
  calculateHashes_def startState_def await_def awaitAll_def settleJob_def readFile_def
  onFileChunkRead_def dispatchSha1Worker_def isCancelled_def steadyEnv_def ceilDiv_def
  readBufferSize_def MB_def KB_def subarray_def typedArraySet_def
  Sha1WorkerObject_computeHashes_def fitsMemoryBuffer_def paddedSize_def maxBufferSize_def
  toyDigest_def ascii_def js_def Let_def
  errorReadingFile_def specErrorReadingFile_def

theorem calculateHashes_piece_table_witness:
  "calculateHashes (steadyEnv True 7)
     [\<lparr>path = [js ''a''],
       file_fp = \<lparr>size_file = 2, reads = [Read (Some (ascii ''ab'')) False, Read None True]\<rparr>\<rparr>,
      \<lparr>path = [js ''z''], file_fp = \<lparr>size_file = 0, reads = []\<rparr>\<rparr>,
      \<lparr>path = [js ''b''],
       file_fp = \<lparr>size_file = 2, reads = [Read (Some (ascii ''cd'')) True]\<rparr>\<rparr>] 4 2 7 =
     Resolved (Inr (toyDigest (ascii ''ab'') @ toyDigest (ascii ''cd''))) \<and>
   int (length (toyDigest (ascii ''ab'') @ toyDigest (ascii ''cd''))) =
     \<lceil>real 4 / real 2\<rceil> * 20"
proof -
  let ?files = "[\<lparr>path = [js ''a''],
       file_fp = \<lparr>size_file = 2, reads = [Read (Some (ascii ''ab'')) False, Read None True]\<rparr>\<rparr>,
      \<lparr>path = [js ''z''], file_fp = \<lparr>size_file = 0, reads = []\<rparr>\<rparr>,
      \<lparr>path = [js ''b''],
       file_fp = \<lparr>size_file = 2, reads = [Read (Some (ascii ''cd'')) True]\<rparr>\<rparr>]"
  have e: "calculateHashes (steadyEnv True 7) ?files 4 2 7 =
             Resolved (Inr (toyDigest (ascii ''ab'') @ toyDigest (ascii ''cd'')))"
    by (simp add: pipe_eval upt_rec)
  have p: "(0::nat) < 2" by simp
  from calculateHashes_piece_table [OF p, of "steadyEnv True 7" 4 7 ?files] e
  show ?thesis by blast
qed

text \<open>
  C9 as stated fails: the message of a failed read has a line feed after the quoted
  path, where the claim has a full stop and a space, and it does not end with a full
  stop.
\<close>

theorem calculateHashes_read_error_counterexample:
  "calculateHashes (steadyEnv True 7)
     [\<lparr>path = [js ''d'', js ''a''], file_fp = \<lparr>size_file = 2, reads = [ReadError]\<rparr>\<rparr>] 2 2 7 =
     Resolved (Inl (Some (errorReadingFile (js ''d/a'')))) \<and>
   errorReadingFile (js ''d/a'') \<noteq> specErrorReadingFile (js ''d/a'')"
  by (simp add: pipe_eval)

text \<open>
  C9, amended. For a positive piece length, in the stream-based version
  (\<open>hasBYOB\<close>), when the files before \<open>f\<close> have been read to the end, \<open>f\<close> is
  not empty and a read of \<open>f\<close> fails after the loop has gone through the reads before
  it, \<open>calculateHashes\<close> returns the error whose message is "Error reading file:
  `path`", a line feed, and "The file might be inaccessible, or might have been
  modified, moved, or deleted", where \<open>path\<close> is the path of \<open>f\<close> joined with "/".
  (With the piece length 0, which \<open>getBlockSize\<close> never yields, the allocation of the
  piece table throws before any file is read.)
\<close>

theorem calculateHashes_read_error:
  assumes "0 < blockSize"
    and "hasBYOB env"
    and "readFiles env creationId blockSize pre
           (startState env totalSize blockSize creationId) = Inr st"
    and "size_file (file_fp f) \<noteq> 0"
    and "reads (file_fp f) = rs @ ReadError # rest"
    and "streamPrefix env creationId blockSize rs
           (st\<lparr>readingFileStarted := readingFileStarted st @ [joinPath (path f)]\<rparr>) = Some st'"
  shows "calculateHashes env (pre @ f # post) totalSize blockSize creationId =
           Resolved (Inl (Some
             (js ''Error reading file: `'' @ joinPath (path f) @ js ''`'' @ [0x0A] @
              js ''The file might be inaccessible, or might have been modified, moved, or deleted'')))"
proof -
  have "readFile env creationId blockSize f st =
          Inl (Resolved (Inl (Some (errorReadingFile (joinPath (path f))))))"
    using assms(2) readStream_prefix [OF assms(6), of "joinPath (path f)" "ReadError # rest"]
    by (simp add: readFile_def Let_def assms(5) readStream_error del: readStream.simps)
  then have "readFiles env creationId blockSize (pre @ f # post)
          (startState env totalSize blockSize creationId) =
          Inl (Resolved (Inl (Some (errorReadingFile (joinPath (path f))))))"
    using assms(3,4) by (simp add: readFiles_append)
  then show ?thesis
    by (simp add: calculateHashes_def errorReadingFile_def)
qed

theorem calculateHashes_read_error_witness:
  "calculateHashes (steadyEnv True 7)
     [\<lparr>path = [js ''d'', js ''a''],
       file_fp = \<lparr>size_file = 4, reads = [Read (Some (ascii ''ab'')) False, ReadError]\<rparr>\<rparr>]
     4 2 7 =
   Resolved (Inl (Some
     (js ''Error reading file: `'' @ js ''d/a'' @ js ''`'' @ [0x0A] @
      js ''The file might be inaccessible, or might have been modified, moved, or deleted'')))"
proof -
  let ?env = "steadyEnv True 7"
  let ?f = "\<lparr>path = [js ''d'', js ''a''],
       file_fp = \<lparr>size_file = 4, reads = [Read (Some (ascii ''ab'')) False, ReadError]\<rparr>\<rparr>"
  let ?st = "startState ?env 4 2 7"
  let ?st1 = "?st\<lparr>readingFileStarted := readingFileStarted ?st @ [joinPath (path ?f)]\<rparr>"
  have z: "(0::nat) < 2" by simp
  have b: "hasBYOB ?env" by (simp add: steadyEnv_def)
  have r: "readFiles ?env 7 2 [] ?st = Inr ?st" by simp
  have s: "size_file (file_fp ?f) \<noteq> 0" by simp
  have l: "reads (file_fp ?f) = [Read (Some (ascii ''ab'')) False] @ ReadError # []" by simp
  have "case streamPrefix ?env 7 2 [Read (Some (ascii ''ab'')) False] ?st1 of
          None \<Rightarrow> False | Some x \<Rightarrow> True"
    by (simp add: pipe_eval)
  then obtain st' where
    p: "streamPrefix ?env 7 2 [Read (Some (ascii ''ab'')) False] ?st1 = Some st'"
    by (auto split: option.splits)
  have j: "joinPath (path ?f) = js ''d/a''" by (simp add: js_def)
  from calculateHashes_read_error [OF z b r s l p, of "[]"] show ?thesis
    unfolding j by simp
qed

end
